theory Spec2Isabelle
  imports Main "HOL-Library.Word" "HOL-Library.AList"
begin

unbundle bit_operations_syntax

section \<open>Text and bytes\<close>

text \<open>
  A Python \<^verbatim>\<open>str\<close> is a sequence of code points; \<^verbatim>\<open>bytes\<close> and the characters of an
  ASCII file are 8-bit \<^typ>\<open>char\<close>s. The request line and the headers reach the handler
  as \<^verbatim>\<open>str\<close> (the standard library decodes them as ISO-8859-1, one code point per
  byte), the request body as \<^verbatim>\<open>bytes\<close>.
\<close>

type_synonym pystr = "nat list"
type_synonym bytes = "char list"

definition str :: "string \<Rightarrow> pystr" where
  \<comment> \<open>a string literal of the source, as code points\<close>
  "str s = map of_char s"

section \<open>The exploit pattern\<close>

text \<open>
  \<^verbatim>\<open>re_exploit = re.compile("\${.*}")\<close>: a literal dollar sign, a literal opening brace
  (no repetition count follows it, so it is a literal), any run of characters other than
  a line feed, taken greedily, and a literal closing brace. The matcher below is the
  backtracking search of Python's \<^verbatim>\<open>re\<close>: alternatives are tried in priority order and
  the first one that succeeds is the match; a greedy star tries one more character first.
\<close>

datatype atom = Lit nat | Dot

datatype item = One atom | Star atom

fun atom_ok :: "atom \<Rightarrow> nat \<Rightarrow> bool" where
  "atom_ok (Lit c) x = (x = c)"
| "atom_ok Dot x = (x \<noteq> 10)"

fun match_here :: "item list \<Rightarrow> pystr \<Rightarrow> pystr option" where
  "match_here [] s = Some []"
| "match_here (One a # p) [] = None"
| "match_here (One a # p) (c # s) =
     (if atom_ok a c then map_option (Cons c) (match_here p s) else None)"
| "match_here (Star a # p) [] = match_here p []"
| "match_here (Star a # p) (c # s) =
     (if atom_ok a c
      then (case match_here (Star a # p) s of
              Some m \<Rightarrow> Some (c # m)
            | None \<Rightarrow> match_here p (c # s))
      else match_here p (c # s))"

fun search :: "item list \<Rightarrow> pystr \<Rightarrow> pystr option" where
  \<comment> \<open>\<^verbatim>\<open>pattern.search(s)\<close> followed by \<^verbatim>\<open>.group(0)\<close>: the match at the leftmost
      position that has one\<close>
  "search p [] = match_here p []"
| "search p (c # s) =
     (case match_here p (c # s) of Some m \<Rightarrow> Some m | None \<Rightarrow> search p s)"

definition re_exploit :: "item list" where
  "re_exploit = [One (Lit 36), One (Lit 123), Star Dot, One (Lit 125)]"

section \<open>Values passed to the logger and their JSON text\<close>

text \<open>
  The values that reach \<^verbatim>\<open>json.dumps\<close> in this program are strings, integers,
  \<^verbatim>\<open>None\<close> and dictionaries with string keys. A dictionary keeps its insertion order;
  an association list with \<^const>\<open>AList.update\<close> (replace in place, or append) is
  Python's \<^verbatim>\<open>d[k] = v\<close>.
\<close>

datatype pyval = Str pystr | Num int | Null | Dict "(pystr \<times> pyval) list"

definition hex_digit :: "nat \<Rightarrow> char" where
  "hex_digit n = ''0123456789abcdef'' ! (n mod 16)"

definition hex4 :: "nat \<Rightarrow> string" where
  \<comment> \<open>\<^verbatim>\<open>'{0:04x}'.format(n)\<close> for \<open>n < 0x10000\<close>\<close>
  "hex4 n = [hex_digit (n div 4096), hex_digit (n div 256), hex_digit (n div 16), hex_digit n]"

definition escape_char :: "nat \<Rightarrow> string" where
  \<comment> \<open>\<^verbatim>\<open>json.encoder.py_encode_basestring_ascii\<close>, one code point\<close>
  "escape_char c =
     (if c = 0x22 then [CHR 0x5C, CHR 0x22]
      else if c = 0x5C then [CHR 0x5C, CHR 0x5C]
      else if c = 0x0A then [CHR 0x5C, CHR ''n'']
      else if c = 0x0D then [CHR 0x5C, CHR ''r'']
      else if c = 0x09 then [CHR 0x5C, CHR ''t'']
      else if c = 0x08 then [CHR 0x5C, CHR ''b'']
      else if c = 0x0C then [CHR 0x5C, CHR ''f'']
      else if 0x20 \<le> c \<and> c \<le> 0x7E then [char_of c]
      else if c < 0x10000 then [CHR 0x5C, CHR ''u''] @ hex4 c
      else (let n = c - 0x10000;
                s1 = 0xD800 + (n div 1024) mod 1024;
                s2 = 0xDC00 + n mod 1024
            in [CHR 0x5C, CHR ''u''] @ hex4 s1 @ [CHR 0x5C, CHR ''u''] @ hex4 s2))"

definition quote :: "pystr \<Rightarrow> string" where
  "quote s = [CHR 0x22] @ concat (map escape_char s) @ [CHR 0x22]"

fun digits :: "nat \<Rightarrow> string" where
  "digits n = (if n < 10 then [char_of (48 + n)]
               else digits (n div 10) @ [char_of (48 + n mod 10)])"

declare digits.simps [simp del]

definition repr_int :: "int \<Rightarrow> string" where
  "repr_int i = (if i < 0 then CHR ''-'' # digits (nat (- i)) else digits (nat i))"

fun dumps :: "pyval \<Rightarrow> string"
  and dumps_items :: "(pystr \<times> pyval) list \<Rightarrow> string" where
  \<comment> \<open>\<^verbatim>\<open>json.dumps\<close> with its defaults: \<^verbatim>\<open>ensure_ascii\<close>, separators \<^verbatim>\<open>', '\<close> and \<^verbatim>\<open>': '\<close>\<close>
  "dumps (Str s) = quote s"
| "dumps (Num i) = repr_int i"
| "dumps Null = ''null''"
| "dumps (Dict kvs) = ''{'' @ dumps_items kvs @ ''}''"
| "dumps_items [] = []"
| "dumps_items ((k, v) # kvs) =
     quote k @ '': '' @ dumps v @ (if kvs = [] then [] else '', '' @ dumps_items kvs)"

section \<open>The world the program acts on\<close>

text \<open>
  What the program does is recorded as a trace of the writes that succeed on its three
  outputs: the bytes sent on the client socket, the text appended to the local log file
  and the blocks appended to the remote blob. The local store is what the \<^verbatim>\<open>F_write\<close>
  actions wrote, in order (each \<^verbatim>\<open>self.f.write(j)\<close> is followed by a flush). The clock
  and the remote service are inputs: \<open>clock w n\<close> is what the \<open>n\<close>-th call of
  \<^verbatim>\<open>datetime.utcnow()\<close> returns, and \<open>blob w\<close> is \<open>None\<close> when \<^verbatim>\<open>self.blob\<close> is
  \<^verbatim>\<open>None\<close>, otherwise the outcomes of the coming \<^verbatim>\<open>append_block\<close> calls (\<open>False\<close>:
  the call raises; past the end of the list every call succeeds). The access log that
  the library prints on the standard error stream is not recorded, and writes to the
  local file are taken to succeed.
\<close>

datatype error =
  ValueError | TypeError | UnicodeDecodeError | UnicodeEncodeError | OSError | AzureError
  | OverflowError | MemoryError

datatype action =
    Wfile_write bytes
  | F_write string
  | Append_block string

record datetime =
  year :: nat
  month :: nat
  day :: nat
  hour :: nat
  minute :: nat
  second :: nat
  microsecond :: nat

record world =
  actions :: "action list"
  clock :: "nat \<Rightarrow> datetime"
  ticks :: nat
  blob :: "bool list option"

definition written :: "world \<Rightarrow> string list" where
  \<comment> \<open>what has been appended to the local store, one element for each write\<close>
  "written w = concat (map (\<lambda>a. case a of F_write j \<Rightarrow> [j] | _ \<Rightarrow> []) (actions w))"

definition emit :: "action list \<Rightarrow> world \<Rightarrow> world" where
  "emit as w = w\<lparr>actions := actions w @ as\<rparr>"

definition utcnow :: "world \<Rightarrow> datetime \<times> world" where
  "utcnow w = (clock w (ticks w), w\<lparr>ticks := Suc (ticks w)\<rparr>)"

definition zpad :: "nat \<Rightarrow> nat \<Rightarrow> string" where
  \<comment> \<open>\<^verbatim>\<open>"%0kd" % n\<close>\<close>
  "zpad k n = replicate (k - length (digits n)) CHR ''0'' @ digits n"

definition isoformat :: "datetime \<Rightarrow> pystr" where
  \<comment> \<open>\<^verbatim>\<open>datetime.isoformat()\<close> of a naive datetime: the fraction is left out when it is zero\<close>
  "isoformat t = str
     (zpad 4 (year t) @ ''-'' @ zpad 2 (month t) @ ''-'' @ zpad 2 (day t) @ ''T'' @
      zpad 2 (hour t) @ '':'' @ zpad 2 (minute t) @ '':'' @ zpad 2 (second t) @
      (if microsecond t = 0 then [] else ''.'' @ zpad 6 (microsecond t)))"

definition append_block :: "string \<Rightarrow> world \<Rightarrow> (error + unit) \<times> world" where
  "append_block j w =
     (case blob w of
        None \<Rightarrow> (Inr (), w)
      | Some [] \<Rightarrow> (Inr (), emit [Append_block j] w)
      | Some (ok # rest) \<Rightarrow>
          if ok then (Inr (), emit [Append_block j] (w\<lparr>blob := Some rest\<rparr>))
          else (Inl AzureError, w\<lparr>blob := Some rest\<rparr>))"

section \<open>Logger\<close>

definition entry :: "pystr \<Rightarrow> datetime \<Rightarrow> (pystr \<times> pyval) list \<Rightarrow> (pystr \<times> pyval) list" where
  \<comment> \<open>the dictionary \<^verbatim>\<open>d\<close> of \<^verbatim>\<open>Logger.log\<close>: a keyword argument named like an earlier
      key replaces its value\<close>
  "entry logtype now kwargs =
     foldl (\<lambda>d (k, v). AList.update k v d)
       [(str ''type'', Str logtype), (str ''timestamp'', Str (isoformat now))] kwargs"

definition record_line :: "(pystr \<times> pyval) list \<Rightarrow> string" where
  "record_line d = dumps (Dict d) @ [CHR 0x0A]"

definition log :: "pystr \<Rightarrow> pystr \<Rightarrow> (pystr \<times> pyval) list \<Rightarrow> world \<Rightarrow> (error + unit) \<times> world" where
  "log logtype message kwargs w =
     (let (now, w1) = utcnow w;
          j = record_line (entry logtype now kwargs);
          w2 = emit [F_write j] w1
      in if blob w2 \<noteq> None then append_block j w2 else (Inr (), w2))"

definition log_start :: "world \<Rightarrow> (error + unit) \<times> world" where
  "log_start w = log (str ''start'') (str ''Log4Pot started'') [] w"

definition lower :: "pystr \<Rightarrow> pystr" where
  \<comment> \<open>\<^verbatim>\<open>str.lower()\<close> on ISO-8859-1 text\<close>
  "lower s = map (\<lambda>c. if (65 \<le> c \<and> c \<le> 90) \<or> (192 \<le> c \<and> c \<le> 222 \<and> c \<noteq> 215)
                       then c + 32 else c) s"

fun message_get :: "(pystr \<times> pystr) list \<Rightarrow> pystr \<Rightarrow> pyval" where
  \<comment> \<open>\<^verbatim>\<open>email.message.Message.__getitem__\<close>: the first header of that name, compared
      without case\<close>
  "message_get [] name = Null"
| "message_get ((k, v) # hs) name =
     (if lower k = lower name then Str v else message_get hs name)"

definition dict_of_message :: "(pystr \<times> pystr) list \<Rightarrow> (pystr \<times> pyval) list" where
  \<comment> \<open>\<^verbatim>\<open>dict(headers)\<close>: for each key of \<^verbatim>\<open>headers.keys()\<close>, in order,
      \<^verbatim>\<open>d[key] = headers[key]\<close>\<close>
  "dict_of_message hs =
     foldl (\<lambda>d k. AList.update k (message_get hs k) d) [] (map fst hs)"

definition request_fields ::
  "int \<Rightarrow> pystr \<Rightarrow> int \<Rightarrow> pystr \<Rightarrow> (pystr \<times> pystr) list \<Rightarrow> pystr \<Rightarrow> (pystr \<times> pyval) list" where
  \<comment> \<open>the keyword arguments that \<^verbatim>\<open>log_request\<close> passes on\<close>
  "request_fields server_port client port request hdrs uuid =
     [(str ''correlation_id'', Str uuid), (str ''server_port'', Num server_port),
      (str ''client'', Str client), (str ''port'', Num port), (str ''request'', Str request),
      (str ''headers'', Dict (dict_of_message hdrs))]"

definition log_request ::
  "int \<Rightarrow> pystr \<Rightarrow> int \<Rightarrow> pystr \<Rightarrow> (pystr \<times> pystr) list \<Rightarrow> pystr \<Rightarrow> world \<Rightarrow> (error + unit) \<times> world" where
  "log_request server_port client port request hdrs uuid w =
     log (str ''request'') (str ''A request was received'')
       (request_fields server_port client port request hdrs uuid) w"

definition log_request_body ::
  "int \<Rightarrow> pystr \<Rightarrow> int \<Rightarrow> pystr \<Rightarrow> (pystr \<times> pystr) list \<Rightarrow> pystr \<Rightarrow> pystr \<Rightarrow> world \<Rightarrow> (error + unit) \<times> world" where
  "log_request_body server_port client port request hdrs uuid content w =
     log (str ''request'') (str ''A request was received'')
       (request_fields server_port client port request hdrs uuid @ [(str ''body'', Str content)]) w"

definition exploit_fields :: "pystr \<Rightarrow> pystr \<Rightarrow> pystr \<Rightarrow> pystr \<Rightarrow> (pystr \<times> pyval) list" where
  \<comment> \<open>the keyword arguments that \<^verbatim>\<open>log_exploit\<close> passes on\<close>
  "exploit_fields location payload uuid client =
     [(str ''correlation_id'', Str uuid), (str ''location'', Str location),
      (str ''payload'', Str payload), (str ''client'', Str client)]"

definition log_exploit :: "pystr \<Rightarrow> pystr \<Rightarrow> pystr \<Rightarrow> pystr \<Rightarrow> world \<Rightarrow> (error + unit) \<times> world" where
  "log_exploit location payload uuid client w =
     log (str ''exploit'') (str ''Exploit detected'')
       (exploit_fields location payload uuid client) w"

definition log_exception :: "pystr \<Rightarrow> world \<Rightarrow> (error + unit) \<times> world" where
  \<comment> \<open>the exception is given by its \<^verbatim>\<open>str(e)\<close>, all that is read of it\<close>
  "log_exception e w =
     log (str ''exception'') (str ''Exception occurred'') [(str ''exception'', Str e)] w"

definition log_end :: "world \<Rightarrow> (error + unit) \<times> world" where
  "log_end w = log (str ''end'') (str ''Log4Pot stopped'') [] w"

section \<open>Library functions the request handler calls\<close>

text \<open>
  \<^verbatim>\<open>int(s)\<close> on a string: surrounding whitespace is dropped, then an optional sign
  and decimal digits, with single underscores allowed between digits. Header text is
  ISO-8859-1, where the decimal digits are the ASCII ones. \<open>max_digits\<close> is
  \<^verbatim>\<open>sys.get_int_max_str_digits()\<close> (0: no limit).
\<close>

definition is_space :: "nat \<Rightarrow> bool" where
  "is_space c = ((9 \<le> c \<and> c \<le> 13) \<or> c = 32 \<or> c = 0x85 \<or> c = 0xA0 \<or> c = 0x1680 \<or>
     (0x2000 \<le> c \<and> c \<le> 0x200A) \<or> c = 0x2028 \<or> c = 0x2029 \<or> c = 0x202F \<or>
     c = 0x205F \<or> c = 0x3000)"

definition is_digit :: "nat \<Rightarrow> bool" where
  "is_digit c = (48 \<le> c \<and> c \<le> 57)"

fun int_literal :: "pystr \<Rightarrow> bool" where
  "int_literal [] = False"
| "int_literal [c] = is_digit c"
| "int_literal (c # d # r) =
     (is_digit c \<and> (if d = 95 then int_literal r else int_literal (d # r)))"

definition py_int :: "nat \<Rightarrow> pystr \<Rightarrow> error + int" where
  "py_int max_digits s =
     (let t = rev (dropWhile is_space (rev (dropWhile is_space s)));
          u = (case t of c # r \<Rightarrow> if c = 45 \<or> c = 43 then r else t | [] \<Rightarrow> t);
          ds = filter is_digit u;
          n = foldl (\<lambda>a c. 10 * a + int (c - 48)) 0 ds
      in if \<not> int_literal u then Inl ValueError
         else if 0 < max_digits \<and> max_digits < length ds then Inl ValueError
         else if t \<noteq> [] \<and> hd t = 45 then Inr (- n) else Inr n)"

text \<open>\<^verbatim>\<open>bytes.decode('utf-8')\<close> and \<^verbatim>\<open>bytes(s, "utf-8")\<close>, both strict.\<close>

definition cont :: "char \<Rightarrow> bool" where
  "cont b = (128 \<le> (of_char b :: nat) \<and> (of_char b :: nat) < 192)"

definition low6 :: "char \<Rightarrow> nat" where
  "low6 b = of_char b mod 64"

definition push :: "nat \<Rightarrow> error + pystr \<Rightarrow> error + pystr" where
  "push c r = (case r of Inl e \<Rightarrow> Inl e | Inr cs \<Rightarrow> Inr (c # cs))"

fun utf8_decode :: "bytes \<Rightarrow> error + pystr" where
  "utf8_decode [] = Inr []"
| "utf8_decode (b # bs) =
     (let x = (of_char b :: nat) in
      if x < 0x80 then push x (utf8_decode bs)
      else if 0xC2 \<le> x \<and> x \<le> 0xDF then
        (case bs of
           b1 # r \<Rightarrow>
             if cont b1 then push ((x mod 32) * 64 + low6 b1) (utf8_decode r)
             else Inl UnicodeDecodeError
         | _ \<Rightarrow> Inl UnicodeDecodeError)
      else if 0xE0 \<le> x \<and> x \<le> 0xEF then
        (case bs of
           b1 # b2 # r \<Rightarrow>
             if cont b1 \<and> cont b2 \<and> (if x = 0xE0 then 0xA0 \<le> (of_char b1 :: nat) else True)
                \<and> (if x = 0xED then (of_char b1 :: nat) < 0xA0 else True)
             then push ((x mod 16) * 4096 + low6 b1 * 64 + low6 b2) (utf8_decode r)
             else Inl UnicodeDecodeError
         | _ \<Rightarrow> Inl UnicodeDecodeError)
      else if 0xF0 \<le> x \<and> x \<le> 0xF4 then
        (case bs of
           b1 # b2 # b3 # r \<Rightarrow>
             if cont b1 \<and> cont b2 \<and> cont b3
                \<and> (if x = 0xF0 then 0x90 \<le> (of_char b1 :: nat) else True)
                \<and> (if x = 0xF4 then (of_char b1 :: nat) < 0x90 else True)
             then push ((x mod 8) * 262144 + low6 b1 * 4096 + low6 b2 * 64 + low6 b3)
                    (utf8_decode r)
             else Inl UnicodeDecodeError
         | _ \<Rightarrow> Inl UnicodeDecodeError)
      else Inl UnicodeDecodeError)"

definition utf8_encode_char :: "nat \<Rightarrow> bytes option" where
  "utf8_encode_char c =
     (if c < 0x80 then Some [char_of c]
      else if c < 0x800 then Some [char_of (0xC0 + c div 64), char_of (0x80 + c mod 64)]
      else if 0xD800 \<le> c \<and> c \<le> 0xDFFF then None
      else if c < 0x10000 then
        Some [char_of (0xE0 + c div 4096), char_of (0x80 + c div 64 mod 64),
              char_of (0x80 + c mod 64)]
      else if c < 0x110000 then
        Some [char_of (0xF0 + c div 262144), char_of (0x80 + c div 4096 mod 64),
              char_of (0x80 + c div 64 mod 64), char_of (0x80 + c mod 64)]
      else None)"

fun utf8_encode :: "pystr \<Rightarrow> error + bytes" where
  "utf8_encode [] = Inr []"
| "utf8_encode (c # cs) =
     (case utf8_encode_char c of
        None \<Rightarrow> Inl UnicodeEncodeError
      | Some bs \<Rightarrow> (case utf8_encode cs of Inl e \<Rightarrow> Inl e | Inr r \<Rightarrow> Inr (bs @ r)))"

text \<open>
  \<^verbatim>\<open>uuid.uuid4()\<close> takes 16 random bytes as a 128-bit integer and sets the variant and
  version bits; \<^verbatim>\<open>str(uuid)\<close> prints the 32 hexadecimal digits in groups of 8, 4, 4, 4
  and 12.
\<close>

definition uuid4 :: "128 word \<Rightarrow> 128 word" where
  "uuid4 r =
     (((r AND NOT (push_bit 48 0xC000)) OR push_bit 48 0x8000)
        AND NOT (push_bit 64 0xF000)) OR push_bit 76 4"

definition hex32 :: "128 word \<Rightarrow> pystr" where
  "hex32 u = map (\<lambda>i. of_char (hex_digit (unat (drop_bit (4 * (31 - i)) u AND 15)))) [0..<32]"

definition str_uuid :: "128 word \<Rightarrow> pystr" where
  "str_uuid u =
     (let hex = hex32 u
      in take 8 hex @ str ''-'' @ take 4 (drop 8 hex) @ str ''-'' @ take 4 (drop 12 hex) @
         str ''-'' @ take 4 (drop 16 hex) @ str ''-'' @ drop 20 hex)"

section \<open>Request handler\<close>

text \<open>
  What one run of \<^verbatim>\<open>Log4PotHTTPRequestHandler.do\<close> reads: the server's settings, the
  parsed request (\<^verbatim>\<open>self.requestline\<close>, \<^verbatim>\<open>self.headers\<close> as the list of its
  \<^verbatim>\<open>items()\<close>), the client's address, what \<^verbatim>\<open>self.date_time_string()\<close> and
  \<^verbatim>\<open>self.rfile.read(n)\<close> return, the outcomes of the successive \<^verbatim>\<open>wfile.write\<close> calls on
  the client socket (\<open>False\<close>: the call raises \<^verbatim>\<open>OSError\<close>, as when the client has
  reset the connection; past the end of the list every call succeeds) and the random
  bytes \<^verbatim>\<open>uuid4\<close> draws. The module-level \<^verbatim>\<open>logger\<close> that \<^verbatim>\<open>find_exploit\<close> uses and
  \<^verbatim>\<open>self.server.logger\<close> are the same object. The library calls \<^verbatim>\<open>do\<close> only for a
  request line that it could parse: two or three words, the third a version
  \<^verbatim>\<open>HTTP/x.y\<close> below 2.0; a request that it answers with an error never reaches \<^verbatim>\<open>do\<close>.
\<close>

record handler =
  server_header :: "pystr option"
  default_version :: pystr
  date_time_string :: pystr
  server_port :: int
  client_host :: pystr
  client_port :: int
  requestline :: pystr
  headers :: "(pystr \<times> pystr) list"
  rfile_read :: "int \<Rightarrow> error + bytes"
  socket :: "bool list"
  random_bytes :: "128 word"
  int_max_str_digits :: nat

definition stream_read :: "nat \<Rightarrow> bytes \<Rightarrow> int \<Rightarrow> error + bytes" where
  \<comment> \<open>\<^verbatim>\<open>BufferedReader.read(n)\<close> on a stream that ends after the bytes \<open>bs\<close>, in a process
      that can allocate buffers of up to \<open>mem\<close> bytes: the buffer for \<open>n\<close> bytes is
      allocated before anything is read\<close>
  "stream_read mem bs n =
     (if n < - 1 then Inl ValueError
      else if n = - 1 then Inr bs
      else if 2 ^ 63 \<le> n then Inl OverflowError
      else if int mem < n then Inl MemoryError
      else Inr (take (nat n) bs))"

definition isspace :: "nat \<Rightarrow> bool" where
  \<comment> \<open>\<^verbatim>\<open>str.isspace\<close> of one character\<close>
  "isspace c = ((9 \<le> c \<and> c \<le> 13) \<or> (28 \<le> c \<and> c \<le> 32) \<or> c = 0x85 \<or> c = 0xA0 \<or> c = 0x1680 \<or>
     (0x2000 \<le> c \<and> c \<le> 0x200A) \<or> c = 0x2028 \<or> c = 0x2029 \<or> c = 0x202F \<or>
     c = 0x205F \<or> c = 0x3000)"

fun split_from :: "pystr \<Rightarrow> pystr \<Rightarrow> pystr list" where
  "split_from word [] = (if word = [] then [] else [word])"
| "split_from word (c # s) =
     (if isspace c
      then (if word = [] then split_from [] s else word # split_from [] s)
      else split_from (word @ [c]) s)"

definition py_split :: "pystr \<Rightarrow> pystr list" where
  \<comment> \<open>\<^verbatim>\<open>str.split()\<close>\<close>
  "py_split s = split_from [] s"

definition request_version :: "handler \<Rightarrow> pystr" where
  \<comment> \<open>\<^verbatim>\<open>self.request_version\<close> as \<^verbatim>\<open>parse_request\<close> leaves it: the third word of the
      request line, and \<^verbatim>\<open>HTTP/0.9\<close> when there are two words only\<close>
  "request_version h =
     (let words = py_split (requestline h)
      in if 3 \<le> length words then last words else str ''HTTP/0.9'')"

definition crlf :: pystr where
  "crlf = [13, 10]"

definition latin1 :: "pystr \<Rightarrow> error + bytes" where
  \<comment> \<open>\<^verbatim>\<open>s.encode('latin-1', 'strict')\<close>\<close>
  "latin1 s =
     (if list_all (\<lambda>c. c < 256) s then Inr (map char_of s) else Inl UnicodeEncodeError)"

definition write_ok :: "handler \<Rightarrow> nat \<Rightarrow> bool" where
  \<comment> \<open>whether the \<open>k\<close>-th \<^verbatim>\<open>wfile.write\<close> of this connection succeeds\<close>
  "write_ok h k = (\<not> (k < length (socket h) \<and> \<not> socket h ! k))"

definition wfile_write :: "handler \<Rightarrow> nat \<Rightarrow> bytes \<Rightarrow> world \<Rightarrow> (error + unit) \<times> world" where
  \<comment> \<open>\<^verbatim>\<open>self.wfile.write(b)\<close>, the \<open>k\<close>-th write on the socket; what a failing
      \<^verbatim>\<open>sendall\<close> has sent of its bytes is not recorded\<close>
  "wfile_write h k b w =
     (if write_ok h k then (Inr (), emit [Wfile_write b] w) else (Inl OSError, w))"

definition version_string :: "handler \<Rightarrow> pystr" where
  "version_string h =
     (case server_header h of
        None \<Rightarrow> default_version h
      | Some v \<Rightarrow> if v \<noteq> [] then v else default_version h)"

definition send_header :: "handler \<Rightarrow> pystr \<Rightarrow> pystr \<Rightarrow> bytes list \<Rightarrow> error + bytes list" where
  \<comment> \<open>\<^verbatim>\<open>send_header(keyword, value)\<close> on the headers buffer: nothing for an
      \<^verbatim>\<open>HTTP/0.9\<close> request\<close>
  "send_header h keyword v buffer =
     (if request_version h \<noteq> str ''HTTP/0.9'' then
        (case latin1 (keyword @ str '': '' @ v @ crlf) of
           Inl e \<Rightarrow> Inl e
         | Inr line \<Rightarrow> Inr (buffer @ [line]))
      else Inr buffer)"

definition send_response_200 :: "handler \<Rightarrow> bytes list \<Rightarrow> error + bytes list" where
  \<comment> \<open>\<^verbatim>\<open>send_response(200)\<close>: the status line with the library's protocol version
      \<^verbatim>\<open>HTTP/1.0\<close> and the phrase \<^verbatim>\<open>OK\<close>, then the \<^verbatim>\<open>Server\<close> and \<^verbatim>\<open>Date\<close> headers\<close>
  "send_response_200 h buffer =
     (case (if request_version h \<noteq> str ''HTTP/0.9''
            then (case latin1 (str ''HTTP/1.0 200 OK'' @ crlf) of
                    Inl e \<Rightarrow> Inl e
                  | Inr line \<Rightarrow> Inr (buffer @ [line]))
            else Inr buffer) of
        Inl e \<Rightarrow> Inl e
      | Inr b1 \<Rightarrow>
          (case send_header h (str ''Server'') (version_string h) b1 of
             Inl e \<Rightarrow> Inl e
           | Inr b2 \<Rightarrow> send_header h (str ''Date'') (date_time_string h) b2))"

definition end_headers :: "handler \<Rightarrow> bytes list \<Rightarrow> world \<Rightarrow> (error + unit) \<times> world" where
  \<comment> \<open>\<^verbatim>\<open>end_headers()\<close>: the blank line, and the buffer written to the socket in one
      write; nothing for an \<^verbatim>\<open>HTTP/0.9\<close> request\<close>
  "end_headers h buffer w =
     (if request_version h \<noteq> str ''HTTP/0.9''
      then wfile_write h 0 (concat (buffer @ [map char_of crlf])) w
      else (Inr (), w))"

definition respond :: "handler \<Rightarrow> pystr \<Rightarrow> world \<Rightarrow> (error + unit) \<times> world" where
  \<comment> \<open>lines 81 to 84\<close>
  \<open>respond h uuid w =
     (case send_response_200 h [] of
        Inl e \<Rightarrow> (Inl e, w)
      | Inr b1 \<Rightarrow>
          (case send_header h (str ''Content-Type'') (str ''text/json'') b1 of
             Inl e \<Rightarrow> (Inl e, w)
           | Inr b2 \<Rightarrow>
               (case end_headers h b2 w of
                  (Inl e, w1) \<Rightarrow> (Inl e, w1)
                | (Inr _, w1) \<Rightarrow>
                    (case utf8_encode (str ''{ "status": "ok", "id": "'' @ uuid @ str ''" }'') of
                       Inl e \<Rightarrow> (Inl e, w1)
                     | Inr body \<Rightarrow>
                         wfile_write h (if request_version h \<noteq> str ''HTTP/0.9'' then 1 else 0)
                           body w1))))\<close>

definition find_exploit :: "handler \<Rightarrow> pystr \<Rightarrow> pystr \<Rightarrow> pystr \<Rightarrow> world \<Rightarrow> (error + unit) \<times> world" where
  "find_exploit h uuid location content w =
     (case search re_exploit content of
        Some m \<Rightarrow> log_exploit location m uuid (client_host h) w
      | None \<Rightarrow> (Inr (), w))"

fun scan_headers :: "handler \<Rightarrow> pystr \<Rightarrow> (pystr \<times> pystr) list \<Rightarrow> world \<Rightarrow> (error + unit) \<times> world" where
  \<comment> \<open>\<^verbatim>\<open>for header, value in self.headers.items(): self.find_exploit(...)\<close>\<close>
  "scan_headers h uuid [] w = (Inr (), w)"
| "scan_headers h uuid ((header, v) # rest) w =
     (case find_exploit h uuid (str ''header-'' @ header) v w of
        (Inl e, w') \<Rightarrow> (Inl e, w')
      | (Inr _, w') \<Rightarrow> scan_headers h uuid rest w')"

definition capture :: "handler \<Rightarrow> pystr \<Rightarrow> world \<Rightarrow> (error + unit) \<times> world" where
  \<comment> \<open>lines 87 to 92: the capture event, with the body when a length is announced\<close>
  "capture h uuid w =
     (if str ''Content-Length'' \<in> set (map fst (dict_of_message (headers h))) then
        (case message_get (headers h) (str ''Content-Length'') of
           Str v \<Rightarrow>
             (case py_int (int_max_str_digits h) v of
                Inl e \<Rightarrow> (Inl e, w)
              | Inr content_length \<Rightarrow>
                  (case rfile_read h content_length of
                     Inl e \<Rightarrow> (Inl e, w)
                   | Inr post_data \<Rightarrow>
                       (case utf8_decode post_data of
                          Inl e \<Rightarrow> (Inl e, w)
                        | Inr content \<Rightarrow>
                            log_request_body (server_port h) (client_host h) (client_port h)
                              (requestline h) (headers h) uuid content w)))
         | _ \<Rightarrow> (Inl TypeError, w))
      else log_request (server_port h) (client_host h) (client_port h)
             (requestline h) (headers h) uuid w)"

definition do :: "handler \<Rightarrow> world \<Rightarrow> (error + unit) \<times> world" where
  "do h w =
     (let uuid = str_uuid (uuid4 (random_bytes h))
      in case respond h uuid w of
           (Inl e, w2) \<Rightarrow> (Inl e, w2)
         | (Inr _, w2) \<Rightarrow>
             (case capture h uuid w2 of
                (Inl e, w3) \<Rightarrow> (Inl e, w3)
              | (Inr _, w3) \<Rightarrow>
                  (case find_exploit h uuid (str ''request'') (requestline h) w3 of
                     (Inl e, w4) \<Rightarrow> (Inl e, w4)
                   | (Inr _, w4) \<Rightarrow> scan_headers h uuid (headers h) w4)))"

section \<open>Listeners and startup\<close>

text \<open>
  \<^verbatim>\<open>Log4PotServerThread.__init__\<close> builds the HTTP server, which binds its port in the
  constructor. The outcome of a bind is an input: \<open>bind bound port\<close> is \<open>None\<close> when
  binding \<open>port\<close> succeeds in a process that has already bound the ports \<open>bound\<close>, and
  the exception otherwise. The threads are built one after the other by the list
  comprehension of the main script, before \<^verbatim>\<open>logger.log_start()\<close>, and started after it.
  What \<^verbatim>\<open>serve_forever()\<close> and \<^verbatim>\<open>server_close()\<close> do in a thread is an input to
  \<^verbatim>\<open>run\<close>: they return, are interrupted, or raise an exception (given by its
  \<^verbatim>\<open>str\<close>).
\<close>

fun make_threads :: "(int list \<Rightarrow> int \<Rightarrow> error option) \<Rightarrow> int list \<Rightarrow> int list \<Rightarrow> error + int list" where
  "make_threads bind bound [] = Inr []"
| "make_threads bind bound (port # ports) =
     (case bind bound port of
        Some e \<Rightarrow> Inl e
      | None \<Rightarrow>
          (case make_threads bind (bound @ [port]) ports of
             Inl e \<Rightarrow> Inl e
           | Inr ts \<Rightarrow> Inr (port # ts)))"

definition startup ::
  "(int list \<Rightarrow> int \<Rightarrow> error option) \<Rightarrow> int list \<Rightarrow> world \<Rightarrow> (error + int list) \<times> world" where
  \<comment> \<open>lines 146 to 150; the result lists the ports whose threads the script then starts\<close>
  "startup bind ports w =
     (case make_threads bind [] ports of
        Inl e \<Rightarrow> (Inl e, w)
      | Inr threads \<Rightarrow>
          (case log_start w of
             (Inl e, w') \<Rightarrow> (Inl e, w')
           | (Inr _, w') \<Rightarrow> (Inr threads, w')))"

definition linux_bind :: "int list \<Rightarrow> int list \<Rightarrow> int \<Rightarrow> error option" where
  \<comment> \<open>binding on a host where the ports \<open>taken\<close> are in use by other processes: a port
      outside 0 to 65535 is refused, port 0 asks for any free port, and a port that is
      taken or already bound by this process is in use\<close>
  "linux_bind taken bound port =
     (if port < 0 \<or> 65535 < port then Some OverflowError
      else if port \<noteq> 0 \<and> (port \<in> set taken \<or> port \<in> set bound) then Some OSError
      else None)"

datatype served = Returned | KeyboardInterrupt | Raised pystr

definition run :: "served \<Rightarrow> world \<Rightarrow> (error + unit) \<times> world" where
  "run outcome w =
     (case outcome of
        Returned \<Rightarrow> (Inr (), w)
      | KeyboardInterrupt \<Rightarrow> (Inr (), w)
      | Raised e \<Rightarrow> log_exception e w)"

section \<open>Notions used to state the properties\<close>

definition is_span :: "pystr \<Rightarrow> bool" where
  \<comment> \<open>a text that starts with the opening marker and ends with the closing marker\<close>
  "is_span m = (3 \<le> length m \<and> take 2 m = [36, 123] \<and> last m = 125)"

definition example_world :: world where
  "example_world =
     \<lparr>actions = [],
      clock = (\<lambda>n. \<lparr>year = 2021, month = 12, day = 14, hour = 9, minute = 30, second = n,
                     microsecond = 0\<rparr>),
      ticks = 0, blob = None\<rparr>"

definition example_handler :: handler where
  "example_handler =
     \<lparr>server_header = Some (str ''Apache/2.4.1''), default_version = str ''BaseHTTP/0.6'',
      date_time_string = str ''Tue, 14 Dec 2021 09:30:00 GMT'',
      server_port = 8080, client_host = str ''10.0.0.7'', client_port = 40000,
      requestline = str ''GET / HTTP/1.1'',
      headers = [(str ''X-Api-Version'', str ''${jndi:ldap://attacker/a}'')],
      rfile_read = stream_read 1000000 [], socket = [], random_bytes = 0,
      int_max_str_digits = 4300\<rparr>"

definition correlation_id :: "handler \<Rightarrow> pystr" where
  \<comment> \<open>\<^verbatim>\<open>str(self.uuid)\<close>\<close>
  "correlation_id h = str_uuid (uuid4 (random_bytes h))"

definition head_bytes :: "handler \<Rightarrow> bytes" where
  \<comment> \<open>the status line and the headers of the response, ended by the blank line\<close>
  "head_bytes h =
     map char_of
       (str ''HTTP/1.0 200 OK'' @ crlf @
        str ''Server: '' @ version_string h @ crlf @
        str ''Date: '' @ date_time_string h @ crlf @
        str ''Content-Type: text/json'' @ crlf @ crlf)"

definition body_bytes :: "handler \<Rightarrow> bytes" where
  \<open>body_bytes h =
     map char_of (str ''{ "status": "ok", "id": "'' @ correlation_id h @ str ''" }'')\<close>

definition encodable :: "pystr \<Rightarrow> bool" where
  "encodable s = list_all (\<lambda>c. c < 256) s"

definition response :: "handler \<Rightarrow> (error + unit) \<times> action list" where
  \<comment> \<open>how lines 81 to 84 end and what they have sent to the client by then\<close>
  "response h =
     (if request_version h = str ''HTTP/0.9'' then
        (if write_ok h 0 then (Inr (), [Wfile_write (body_bytes h)]) else (Inl OSError, []))
      else if \<not> encodable (version_string h) \<or> \<not> encodable (date_time_string h)
        then (Inl UnicodeEncodeError, [])
      else if \<not> write_ok h 0 then (Inl OSError, [])
      else if \<not> write_ok h 1 then (Inl OSError, [Wfile_write (head_bytes h)])
      else (Inr (), [Wfile_write (head_bytes h), Wfile_write (body_bytes h)]))"

definition read_body :: "handler \<Rightarrow> error + pystr option" where
  \<comment> \<open>what lines 87 to 90 obtain before they log: no body, the decoded body, or the
      exception that ends the handling\<close>
  "read_body h =
     (if str ''Content-Length'' \<in> set (map fst (dict_of_message (headers h))) then
        (case message_get (headers h) (str ''Content-Length'') of
           Str v \<Rightarrow>
             (case py_int (int_max_str_digits h) v of
                Inl e \<Rightarrow> Inl e
              | Inr content_length \<Rightarrow>
                  (case rfile_read h content_length of
                     Inl e \<Rightarrow> Inl e
                   | Inr post_data \<Rightarrow>
                       (case utf8_decode post_data of
                          Inl e \<Rightarrow> Inl e
                        | Inr content \<Rightarrow> Inr (Some content))))
         | _ \<Rightarrow> Inl TypeError)
      else Inr None)"

definition surfaces :: "handler \<Rightarrow> (pystr \<times> pystr) list" where
  \<comment> \<open>the texts that are scanned, each with its location tag, in scanning order\<close>
  "surfaces h =
     (str ''request'', requestline h) #
     map (\<lambda>(header, v). (str ''header-'' @ header, v)) (headers h)"

definition has_signature :: "pystr \<Rightarrow> bool" where
  \<comment> \<open>the text has \<^verbatim>\<open>${\<close>, then characters other than a line feed, then \<^verbatim>\<open>}\<close>\<close>
  "has_signature s =
     (\<exists>pre body post. s = pre @ [36, 123] @ body @ [125] @ post \<and> 10 \<notin> set body)"

definition hits_of :: "(pystr \<times> pystr) list \<Rightarrow> (pystr \<times> pystr) list" where
  "hits_of sfs =
     concat (map (\<lambda>(location, content).
                    case search re_exploit content of
                      None \<Rightarrow> []
                    | Some m \<Rightarrow> [(location, m)]) sfs)"

definition hits :: "handler \<Rightarrow> (pystr \<times> pystr) list" where
  \<comment> \<open>location tag and matched text of every surface that the pattern matches\<close>
  "hits h = hits_of (surfaces h)"

type_synonym call = "pystr \<times> pystr \<times> (pystr \<times> pyval) list"

definition capture_call :: "handler \<Rightarrow> pystr option \<Rightarrow> call" where
  \<comment> \<open>the arguments of the \<^verbatim>\<open>log\<close> call behind \<^verbatim>\<open>log_request\<close> and \<^verbatim>\<open>log_request_body\<close>\<close>
  "capture_call h b =
     (str ''request'', str ''A request was received'',
      request_fields (server_port h) (client_host h) (client_port h) (requestline h)
        (headers h) (correlation_id h) @
      (case b of None \<Rightarrow> [] | Some content \<Rightarrow> [(str ''body'', Str content)]))"

definition exploit_call :: "handler \<Rightarrow> pystr \<times> pystr \<Rightarrow> call" where
  \<comment> \<open>the arguments of the \<^verbatim>\<open>log\<close> call behind \<^verbatim>\<open>log_exploit\<close>\<close>
  "exploit_call h = (\<lambda>(location, m).
     (str ''exploit'', str ''Exploit detected'',
      exploit_fields location m (correlation_id h) (client_host h)))"

fun log_all :: "call list \<Rightarrow> world \<Rightarrow> (error + unit) \<times> world" where
  \<comment> \<open>\<^verbatim>\<open>log\<close> calls one after the other; the first exception ends the sequence\<close>
  "log_all [] w = (Inr (), w)"
| "log_all ((logtype, message, kwargs) # cs) w =
     (case log logtype message kwargs w of
        (Inl e, w') \<Rightarrow> (Inl e, w')
      | (Inr _, w') \<Rightarrow> log_all cs w')"

fun lines_from :: "(nat \<Rightarrow> datetime) \<Rightarrow> nat \<Rightarrow> call list \<Rightarrow> string list" where
  \<comment> \<open>the records of a sequence of \<^verbatim>\<open>log\<close> calls whose first reads the clock as its
      \<open>t\<close>-th reader\<close>
  "lines_from clk t [] = []"
| "lines_from clk t ((logtype, message, kwargs) # cs) =
     record_line (entry logtype (clk t) kwargs) # lines_from clk (Suc t) cs"

definition is_log_action :: "action \<Rightarrow> bool" where
  "is_log_action a = (case a of F_write j \<Rightarrow> True | Append_block j \<Rightarrow> True | _ \<Rightarrow> False)"

definition bad_length_handler :: handler where
  "bad_length_handler =
     example_handler\<lparr>headers := [(str ''Content-Length'', str ''abc''),
                                  (str ''X-Api-Version'', str ''${jndi:ldap://x}'')]\<rparr>"

fun first_occurrences :: "'a list \<Rightarrow> 'a list" where
  "first_occurrences [] = []"
| "first_occurrences (x # xs) = x # filter (\<lambda>y. y \<noteq> x) (first_occurrences xs)"

definition malformed_length_handler :: handler where
  "malformed_length_handler = example_handler\<lparr>headers := [(str ''Content-Length'', str ''12a'')]\<rparr>"

definition bad_body_handler :: handler where
  "bad_body_handler =
     example_handler\<lparr>headers := [(str ''Content-Length'', str ''1'')],
                      rfile_read := stream_read 1000000 [CHR 0xFF]\<rparr>"

definition failing_remote_world :: world where
  "failing_remote_world = example_world\<lparr>blob := Some [False]\<rparr>"


definition reset_handler :: handler where
  \<comment> \<open>a client that has reset the connection before the response is written\<close>
  "reset_handler = example_handler\<lparr>socket := [False]\<rparr>"

definition lower_case_length_handler :: handler where
  "lower_case_length_handler =
     example_handler\<lparr>headers := [(str ''content-length'', str ''1'')],
                      rfile_read := stream_read 1000000 [CHR 0xFF]\<rparr>"

section \<open>Properties of the matcher\<close>

lemma tail_sound:
  "match_here [Star Dot, One (Lit 125)] s = Some m \<Longrightarrow>
   \<exists>body post. m = body @ [125] \<and> s = m @ post \<and> 10 \<notin> set body"
proof (induction s arbitrary: m)
  case Nil
  then show ?case by simp
next
  case (Cons c s)
  show ?case
  proof (cases "c \<noteq> 10 \<and> match_here [Star Dot, One (Lit 125)] s \<noteq> None")
    case True
    then obtain m' where m': "match_here [Star Dot, One (Lit 125)] s = Some m'" by auto
    with True Cons.prems have m: "m = c # m'" by simp
    from Cons.IH [OF m'] obtain body post where
      "m' = body @ [125]" "s = m' @ post" "10 \<notin> set body" by blast
    with True m have "m = (c # body) @ [125] \<and> c # s = m @ post \<and> 10 \<notin> set (c # body)"
      by simp
    then show ?thesis by blast
  next
    case False
    with Cons.prems have "c = 125 \<and> m = [125]"
      by (auto split: if_splits option.splits)
    then have "m = [] @ [125] \<and> c # s = m @ s \<and> 10 \<notin> set ([]::nat list)" by simp
    then show ?thesis by blast
  qed
qed

lemma tail_complete:
  "10 \<notin> set body \<Longrightarrow>
   \<exists>m. match_here [Star Dot, One (Lit 125)] (body @ 125 # post) = Some m \<and> length body < length m"
proof (induction body)
  case Nil
  then show ?case by (auto split: option.splits)
next
  case (Cons c body)
  then show ?case by (auto split: option.splits)
qed

lemma match_here_re_exploit:
  "match_here re_exploit s =
     (case s of
        a # b # t \<Rightarrow>
          if a = 36 \<and> b = 123
          then map_option (\<lambda>m. 36 # 123 # m) (match_here [Star Dot, One (Lit 125)] t)
          else None
      | _ \<Rightarrow> None)"
  by (auto simp: re_exploit_def option.map_comp comp_def split: list.splits)

lemma match_sound:
  assumes "match_here re_exploit s = Some m"
  shows "\<exists>body post. m = [36, 123] @ body @ [125] \<and> s = m @ post \<and> 10 \<notin> set body"
proof -
  from assms obtain t m' where s: "s = 36 # 123 # t"
    and m': "match_here [Star Dot, One (Lit 125)] t = Some m'" and m: "m = 36 # 123 # m'"
    by (auto simp: match_here_re_exploit split: list.splits if_splits)
  from tail_sound [OF m'] obtain body post where
    "m' = body @ [125]" "t = m' @ post" "10 \<notin> set body" by blast
  with s m have "m = [36, 123] @ body @ [125] \<and> s = m @ post \<and> 10 \<notin> set body" by simp
  then show ?thesis by blast
qed

lemma match_complete:
  assumes "10 \<notin> set body"
  shows "\<exists>m. match_here re_exploit ([36, 123] @ body @ [125] @ post) = Some m \<and>
             length ([36, 123] @ body @ [125]) \<le> length m"
proof -
  from tail_complete [OF assms, of post] obtain m' where
    "match_here [Star Dot, One (Lit 125)] (body @ 125 # post) = Some m'" "length body < length m'"
    by blast
  then show ?thesis by (simp add: match_here_re_exploit)
qed

lemma search_leftmost:
  "search p s = Some m \<Longrightarrow>
   \<exists>pre t. s = pre @ t \<and> match_here p t = Some m \<and>
     (\<forall>pre' t'. s = pre' @ t' \<and> length pre' < length pre \<longrightarrow> match_here p t' = None)"
proof (induction s)
  case Nil
  then have "match_here p [] = Some m" by simp
  then show ?case by (intro exI [of _ "[]"]) simp
next
  case (Cons c s)
  show ?case
  proof (cases "match_here p (c # s)")
    case (Some m')
    with Cons.prems have "match_here p (c # s) = Some m" by simp
    then show ?thesis by (intro exI [of _ "[]"] exI [of _ "c # s"]) simp
  next
    case None
    with Cons.prems have "search p s = Some m" by simp
    from Cons.IH [OF this] obtain pre t where s: "s = pre @ t" and t: "match_here p t = Some m"
      and left: "\<And>pre' t'. s = pre' @ t' \<Longrightarrow> length pre' < length pre \<Longrightarrow> match_here p t' = None"
      by blast
    have early: "match_here p t' = None"
      if a: "c # s = pre' @ t'" and b: "length pre' < length (c # pre)" for pre' t'
    proof (cases pre')
      case Nil
      with a None show ?thesis by simp
    next
      case (Cons x q)
      with a b have "s = q @ t'" "length q < length pre" by simp_all
      then show ?thesis by (rule left)
    qed
    have "c # s = (c # pre) @ t" using s by simp
    with t early show ?thesis by blast
  qed
qed

lemma search_none:
  "search p s = None \<Longrightarrow> s = pre @ t \<Longrightarrow> match_here p t = None"
proof (induction s arbitrary: pre)
  case Nil
  then show ?case by simp
next
  case (Cons c s)
  show ?case
  proof (cases pre)
    case Nil
    with Cons.prems show ?thesis by (auto split: option.splits)
  next
    case (Cons x q)
    with Cons.prems Cons.IH [of q] show ?thesis by (simp split: option.splits)
  qed
qed


section \<open>Properties of the logger\<close>

lemma written_emit: "written (emit as w) = written w @ concat (map (\<lambda>a. case a of F_write j \<Rightarrow> [j] | _ \<Rightarrow> []) as)"
  by (simp add: written_def emit_def)

lemma log_eq:
  "log t msg kw w =
     (let j = record_line (entry t (clock w (ticks w)) kw);
          w2 = w\<lparr>actions := actions w @ [F_write j], ticks := Suc (ticks w)\<rparr>
      in case blob w of
           None \<Rightarrow> (Inr (), w2)
         | Some [] \<Rightarrow> (Inr (), w2\<lparr>actions := actions w @ [F_write j, Append_block j]\<rparr>)
         | Some (ok # rest) \<Rightarrow>
             if ok then (Inr (), w2\<lparr>actions := actions w @ [F_write j, Append_block j], blob := Some rest\<rparr>)
             else (Inl AzureError, w2\<lparr>blob := Some rest\<rparr>))"
proof (cases "blob w")
  case None
  then show ?thesis by (simp add: log_def Let_def utcnow_def emit_def)
next
  case (Some sc)
  then show ?thesis
    by (cases sc) (simp_all add: log_def Let_def utcnow_def emit_def append_block_def)
qed

lemma log_written:
  "written (snd (log t msg kw w)) = written w @ [record_line (entry t (clock w (ticks w)) kw)]"
  by (simp add: log_eq Let_def written_def split: option.split list.split)

lemma log_ticks: "ticks (snd (log t msg kw w)) = Suc (ticks w)"
  by (simp add: log_eq Let_def split: option.split list.split)

lemma log_clock: "clock (snd (log t msg kw w)) = clock w"
  by (simp add: log_eq Let_def split: option.split list.split)

lemma log_blob: "blob (snd (log t msg kw w)) = map_option (drop 1) (blob w)"
  by (simp add: log_eq Let_def split: option.split list.split)

lemma log_result:
  "fst (log t msg kw w) =
     (case blob w of Some (False # _) \<Rightarrow> Inl AzureError | _ \<Rightarrow> Inr ())"
  by (simp add: log_eq Let_def split: option.split list.split)

section \<open>Scanning one surface\<close>

lemma find_exploit_written:
  "written (snd (find_exploit h uuid location content w)) =
     written w @
     (case search re_exploit content of
        None \<Rightarrow> []
      | Some m \<Rightarrow>
          [record_line (entry (str ''exploit'') (clock w (ticks w))
             (exploit_fields location m uuid (client_host h)))])"
  by (simp add: find_exploit_def log_exploit_def log_written split: option.split)

lemma unclosed_marker:
  assumes "\<forall>pre post. content = pre @ [36, 123] @ post \<longrightarrow> 125 \<notin> set post"
  shows "search re_exploit content = None"
proof (rule ccontr)
  assume "search re_exploit content \<noteq> None"
  then obtain m where "search re_exploit content = Some m" by auto
  from search_leftmost [OF this] obtain pre t where
    s: "content = pre @ t" and t: "match_here re_exploit t = Some m" by blast
  from match_sound [OF t] obtain body post where
    "m = [36, 123] @ body @ [125]" "t = m @ post" by blast
  with s have "content = pre @ [36, 123] @ (body @ [125] @ post)" by simp
  with assms have "125 \<notin> set (body @ [125] @ post)" by blast
  then show False by simp
qed

text \<open>
  C5 (amended). When the scanned text has an opening marker followed by a closing marker
  with no line feed between them, the detector reports a match; the match starts at the
  leftmost such opening marker and is the longest text from there to a closing marker
  that has no line feed between its markers. Every other such occurrence starts later,
  or starts at the same place and is no longer.
\<close>

theorem match_is_leftmost_longest:
  assumes occ: "s = pre0 @ [36, 123] @ body0 @ [125] @ post0" and nl: "10 \<notin> set body0"
  shows "\<exists>m pre body post.
           search re_exploit s = Some m \<and> s = pre @ m @ post \<and>
           m = [36, 123] @ body @ [125] \<and> 10 \<notin> set body \<and>
           (\<forall>pre' body' post'.
              s = pre' @ [36, 123] @ body' @ [125] @ post' \<and> 10 \<notin> set body' \<longrightarrow>
              length pre < length pre' \<or> (length pre' = length pre \<and> length body' \<le> length body))"
proof -
  from match_complete [OF nl, of post0]
  have some: "match_here re_exploit ([36, 123] @ body0 @ [125] @ post0) \<noteq> None" by auto
  have "search re_exploit s \<noteq> None"
  proof
    assume "search re_exploit s = None"
    from search_none [OF this occ] some show False by simp
  qed
  then obtain m where m: "search re_exploit s = Some m" by auto
  from search_leftmost [OF m] obtain pre t where s: "s = pre @ t"
    and t: "match_here re_exploit t = Some m"
    and left: "\<And>pre' t'. s = pre' @ t' \<Longrightarrow> length pre' < length pre \<Longrightarrow>
                 match_here re_exploit t' = None"
    by blast
  from match_sound [OF t] obtain body post where
    mb: "m = [36, 123] @ body @ [125]" and tp: "t = m @ post" and nb: "10 \<notin> set body"
    by blast
  have other: "length pre < length pre' \<or> (length pre' = length pre \<and> length body' \<le> length body)"
    if o: "s = pre' @ [36, 123] @ body' @ [125] @ post'" and n: "10 \<notin> set body'"
    for pre' body' post'
  proof -
    from match_complete [OF n, of post'] obtain m' where
      m': "match_here re_exploit ([36, 123] @ body' @ [125] @ post') = Some m'"
      and len: "length ([36, 123] @ body' @ [125]) \<le> length m'" by blast
    have "\<not> length pre' < length pre" using left [OF o] m' by auto
    moreover have "length body' \<le> length body" if eq: "length pre' = length pre"
    proof -
      from s o eq have "t = [36, 123] @ body' @ [125] @ post'" by (metis append_eq_append_conv)
      with t m' have "m' = m" by simp
      with len mb show ?thesis by simp
    qed
    ultimately show ?thesis by linarith
  qed
  from m s tp mb nb other show ?thesis by blast
qed

theorem match_is_leftmost_longest_witness:
  "str ''${a}b}'' = [] @ [36, 123] @ str ''a'' @ [125] @ str ''b}'' \<and> 10 \<notin> set (str ''a'') \<and>
   (\<exists>m pre body post.
      search re_exploit (str ''${a}b}'') = Some m \<and> str ''${a}b}'' = pre @ m @ post \<and>
      m = [36, 123] @ body @ [125] \<and> 10 \<notin> set body \<and>
      (\<forall>pre' body' post'.
         str ''${a}b}'' = pre' @ [36, 123] @ body' @ [125] @ post' \<and> 10 \<notin> set body' \<longrightarrow>
         length pre < length pre' \<or> (length pre' = length pre \<and> length body' \<le> length body)))"
proof -
  have a: "str ''${a}b}'' = [] @ [36, 123] @ str ''a'' @ [125] @ str ''b}''"
    by (simp add: str_def)
  have b: "10 \<notin> set (str ''a'')" by (simp add: str_def)
  from match_is_leftmost_longest [OF a b] a b show ?thesis by blast
qed

text \<open>
  C5 as stated fails: in \<^verbatim>\<open>${a}b}\<close> the shortest span from an opening marker to a closing
  marker is \<^verbatim>\<open>${a}\<close>, and the detector reports the whole of \<^verbatim>\<open>${a}b}\<close>.
\<close>

theorem shortest_span_counterexample:
  "search re_exploit (str ''${a}b}'') = Some (str ''${a}b}'') \<and>
   str ''${a}b}'' = [] @ str ''${a}'' @ str ''b}'' \<and> is_span (str ''${a}'') \<and>
   length (str ''${a}'') < length (str ''${a}b}'')"
  by (simp add: re_exploit_def str_def is_span_def)

text \<open>
  C10. Scanning one surface appends at most one record to the local store: nothing when
  the pattern does not match, and otherwise the exploit event of the one match that the
  search reports, however many occurrences the surface has. A surface in which no closing
  marker follows an opening marker appends nothing.
\<close>

theorem find_exploit_at_most_one:
  "length (written (snd (find_exploit h uuid location content w))) \<le> Suc (length (written w)) \<and>
   written (snd (find_exploit h uuid location content w)) =
     written w @
     (case search re_exploit content of
        None \<Rightarrow> []
      | Some m \<Rightarrow>
          [record_line (entry (str ''exploit'') (clock w (ticks w))
             (exploit_fields location m uuid (client_host h)))]) \<and>
   (\<not> (\<exists>pre post. content = pre @ [36, 123] @ post \<and> 125 \<in> set post) \<longrightarrow>
      written (snd (find_exploit h uuid location content w)) = written w)"
proof -
  have "search re_exploit content = None"
    if "\<not> (\<exists>pre post. content = pre @ [36, 123] @ post \<and> 125 \<in> set post)"
    using that unclosed_marker [of content] by blast
  then show ?thesis
    by (auto simp: find_exploit_written split: option.split)
qed

theorem find_exploit_at_most_one_witness:
  "\<not> (\<exists>pre post. str ''${jndi'' = pre @ [36, 123] @ post \<and> 125 \<in> set post) \<and>
   written (snd (find_exploit example_handler (str ''id'') (str ''request'') (str ''${jndi'')
                   example_world))
     = written example_world \<and>
   length (written (snd (find_exploit example_handler (str ''id'') (str ''request'')
                           (str ''${a} ${b}'') example_world)))
     \<le> Suc (length (written example_world))"
proof -
  have "125 \<notin> set (str ''${jndi'')" by (simp add: str_def)
  then have a: "\<not> (\<exists>pre post. str ''${jndi'' = pre @ [36, 123] @ post \<and> 125 \<in> set post)"
    by (metis Un_iff set_append)
  from a find_exploit_at_most_one [of example_handler "str ''id''" "str ''request''"
      "str ''${jndi''" example_world]
    find_exploit_at_most_one [of example_handler "str ''id''" "str ''request''"
      "str ''${a} ${b}''" example_world]
  show ?thesis by blast
qed

section \<open>Properties of the request handler\<close>

lemma utf8_encode_ascii:
  "\<forall>c\<in>set s. c < 128 \<Longrightarrow> utf8_encode s = Inr (map char_of s)"
  by (induction s) (simp_all add: utf8_encode_char_def)

lemma hex_digit_ascii: "(of_char (hex_digit n) :: nat) < 128"
proof -
  have "hex_digit n \<in> set ''0123456789abcdef''"
    unfolding hex_digit_def by (rule nth_mem) simp
  then show ?thesis by auto
qed

lemma str_uuid_ascii: "c \<in> set (str_uuid u) \<Longrightarrow> c < 128"
proof -
  have hex: "x < 128" if "x \<in> set (hex32 u)" for x
    using that hex_digit_ascii by (auto simp: hex32_def)
  assume "c \<in> set (str_uuid u)"
  then have "c \<in> set (hex32 u) \<or> c = 45"
    by (auto simp: str_uuid_def Let_def str_def dest: in_set_takeD in_set_dropD)
  with hex show ?thesis by auto
qed

lemma response_body_encode:
  \<open>utf8_encode (str ''{ "status": "ok", "id": "'' @ str_uuid u @ str ''" }'') =
     Inr (map char_of (str ''{ "status": "ok", "id": "'' @ str_uuid u @ str ''" }''))\<close>
  by (rule utf8_encode_ascii) (auto simp: str_def dest: str_uuid_ascii)

lemma capture_eq:
  "capture h (correlation_id h) w =
     (case read_body h of
        Inl e \<Rightarrow> (Inl e, w)
      | Inr b \<Rightarrow> log_all [capture_call h b] w)"
  by (simp add: capture_def read_body_def capture_call_def log_request_def log_request_body_def
      split: pyval.split sum.split prod.split)

lemma log_all_append:
  "log_all (cs @ ds) w =
     (case log_all cs w of (Inl e, w') \<Rightarrow> (Inl e, w') | (Inr _, w') \<Rightarrow> log_all ds w')"
  by (induction cs arbitrary: w) (auto split: prod.split sum.split)

lemma find_exploit_log_all:
  "find_exploit h (correlation_id h) location content w =
     log_all (map (exploit_call h) (hits_of [(location, content)])) w"
  by (simp add: find_exploit_def hits_of_def exploit_call_def log_exploit_def
      split: option.split prod.split sum.split)

lemma hits_of_Cons: "hits_of (sf # sfs) = hits_of [sf] @ hits_of sfs"
  by (simp add: hits_of_def)

lemma scan_headers_log_all:
  "scan_headers h (correlation_id h) hs w =
     log_all (map (exploit_call h) (hits_of (map (\<lambda>(header, v). (str ''header-'' @ header, v)) hs))) w"
proof (induction hs arbitrary: w)
  case Nil
  then show ?case by (simp add: hits_of_def)
next
  case (Cons kv hs)
  obtain k v where kv: "kv = (k, v)" by (cases kv)
  let ?f = "\<lambda>(header, v). (str ''header-'' @ header, v)"
  have split: "hits_of (map ?f (kv # hs)) = hits_of [(str ''header-'' @ k, v)] @ hits_of (map ?f hs)"
    using hits_of_Cons [of "(str ''header-'' @ k, v)" "map ?f hs"] by (simp add: kv)
  have "scan_headers h (correlation_id h) (kv # hs) w =
        (case log_all (map (exploit_call h) (hits_of [(str ''header-'' @ k, v)])) w of
           (Inl e, w') \<Rightarrow> (Inl e, w')
         | (Inr _, w') \<Rightarrow> log_all (map (exploit_call h) (hits_of (map ?f hs))) w')"
    by (simp only: kv scan_headers.simps find_exploit_log_all Cons.IH)
  also have "\<dots> = log_all (map (exploit_call h) (hits_of (map ?f (kv # hs)))) w"
    by (simp only: split map_append log_all_append)
  finally show ?case .
qed

lemma latin1_eq:
  "latin1 s = (if encodable s then Inr (map char_of s) else Inl UnicodeEncodeError)"
  by (simp add: latin1_def encodable_def)

lemma encodable_append: "encodable (a @ b) \<longleftrightarrow> encodable a \<and> encodable b"
  by (simp add: encodable_def)

lemma encodable_text:
  "encodable crlf" "encodable (str ''HTTP/1.0 200 OK'')" "encodable (str ''Server'')"
  "encodable (str ''Date'')" "encodable (str ''Content-Type'')" "encodable (str ''text/json'')"
  "encodable (str '': '')"
  by (simp_all add: encodable_def crlf_def str_def)

lemma send_header_eq:
  "send_header h keyword v buffer =
     (if request_version h = str ''HTTP/0.9'' then Inr buffer
      else if encodable keyword \<and> encodable v
        then Inr (buffer @ [map char_of (keyword @ str '': '' @ v @ crlf)])
      else Inl UnicodeEncodeError)"
  by (simp add: send_header_def latin1_eq encodable_append encodable_text)

lemma send_response_200_eq:
  "send_response_200 h buffer =
     (if request_version h = str ''HTTP/0.9'' then Inr buffer
      else if encodable (version_string h) \<and> encodable (date_time_string h)
        then Inr (buffer @
               [map char_of (str ''HTTP/1.0 200 OK'' @ crlf),
                map char_of (str ''Server'' @ str '': '' @ version_string h @ crlf),
                map char_of (str ''Date'' @ str '': '' @ date_time_string h @ crlf)])
      else Inl UnicodeEncodeError)"
  by (simp add: send_response_200_def send_header_eq latin1_eq encodable_append encodable_text)

lemma head_bytes_eq:
  "concat
     ([map char_of (str ''HTTP/1.0 200 OK'' @ crlf),
       map char_of (str ''Server'' @ str '': '' @ version_string h @ crlf),
       map char_of (str ''Date'' @ str '': '' @ date_time_string h @ crlf),
       map char_of (str ''Content-Type'' @ str '': '' @ str ''text/json'' @ crlf)] @
      [map char_of crlf]) = head_bytes h"
  by (simp add: head_bytes_def str_def)

lemma respond_eq:
  "respond h (correlation_id h) w = (fst (response h), emit (snd (response h)) w)"
proof (cases "request_version h = str ''HTTP/0.9''")
  case True
  have "emit [] w = w" by (simp add: emit_def)
  with True show ?thesis
    unfolding respond_def correlation_id_def
    by (simp add: send_response_200_eq send_header_eq end_headers_def response_body_encode
        wfile_write_def response_def body_bytes_def correlation_id_def)
next
  case False
  show ?thesis
  proof (cases "encodable (version_string h) \<and> encodable (date_time_string h)")
    case enc: True
    have e: "emit [Wfile_write b] (emit [Wfile_write a] w) = emit [Wfile_write a, Wfile_write b] w"
      "emit [] w = w"
      for a b by (simp_all add: emit_def)
    from False enc show ?thesis
      by (simp add: respond_def send_response_200_eq send_header_eq encodable_text end_headers_def
          response_body_encode [of "uuid4 (random_bytes h)", folded correlation_id_def]
          body_bytes_def head_bytes_def wfile_write_def response_def e)
         (simp add: str_def)
  next
    case noenc: False
    have "emit [] w = w" by (simp add: emit_def)
    with False noenc show ?thesis
      unfolding respond_def
      by (auto simp add: send_response_200_eq response_def)
  qed
qed

lemma response_sent: "a \<in> set (snd (response h)) \<Longrightarrow> \<exists>b. a = Wfile_write b"
  by (auto simp: response_def split: if_splits)

lemma written_response: "written (emit (snd (response h)) w) = written w"
proof -
  have "concat (map (\<lambda>a. case a of F_write j \<Rightarrow> [j] | _ \<Rightarrow> []) as) = []"
    if "\<forall>a\<in>set as. \<exists>b. a = Wfile_write b" for as :: "action list"
    using that by (induction as) auto
  moreover from response_sent [of _ h]
  have "\<forall>a\<in>set (snd (response h)). \<exists>b. a = Wfile_write b" by blast
  ultimately show ?thesis by (simp add: written_emit)
qed

lemma do_eq:
  "do h w =
     (case fst (response h) of
        Inl e \<Rightarrow> (Inl e, emit (snd (response h)) w)
      | Inr _ \<Rightarrow>
          (case read_body h of
             Inl e \<Rightarrow> (Inl e, emit (snd (response h)) w)
           | Inr b \<Rightarrow>
               log_all (capture_call h b # map (exploit_call h) (hits h))
                 (emit (snd (response h)) w)))"
proof -
  let ?f = "\<lambda>(header, v). (str ''header-'' @ header, v)"
  let ?w = "emit (snd (response h)) w"
  have hs: "hits h = hits_of [(str ''request'', requestline h)] @ hits_of (map ?f (headers h))"
    using hits_of_Cons [of "(str ''request'', requestline h)" "map ?f (headers h)"]
    by (simp add: hits_def surfaces_def)
  have scan: "(case find_exploit h (correlation_id h) (str ''request'') (requestline h) w' of
                 (Inl e, w4) \<Rightarrow> (Inl e, w4)
               | (Inr _, w4) \<Rightarrow> scan_headers h (correlation_id h) (headers h) w4) =
              log_all (map (exploit_call h) (hits h)) w'" for w'
    by (simp only: find_exploit_log_all scan_headers_log_all hs map_append log_all_append)
  have d: "do h w =
      (case fst (response h) of
         Inl e \<Rightarrow> (Inl e, ?w)
       | Inr _ \<Rightarrow>
           (case capture h (correlation_id h) ?w of
              (Inl e, w3) \<Rightarrow> (Inl e, w3)
            | (Inr _, w3) \<Rightarrow> log_all (map (exploit_call h) (hits h)) w3))"
    unfolding do_def Let_def correlation_id_def [symmetric]
    by (simp only: respond_eq scan prod.case)
  show ?thesis
  proof (cases "fst (response h)")
    case (Inl err)
    then show ?thesis by (simp add: d)
  next
    case ok: (Inr u)
    show ?thesis
    proof (cases "read_body h")
      case (Inl err)
      with ok show ?thesis by (simp add: d capture_eq)
    next
      case (Inr b)
      obtain logtype message kwargs where c: "capture_call h b = (logtype, message, kwargs)"
        by (cases "capture_call h b")
      from Inr ok show ?thesis
        by (simp add: d capture_eq c split: prod.split sum.split)
    qed
  qed
qed

lemma log_all_written:
  "\<exists>n\<le>length cs.
     written (snd (log_all cs w)) = written w @ take n (lines_from (clock w) (ticks w) cs) \<and>
     (fst (log_all cs w) = Inr () \<longrightarrow> n = length cs) \<and> (cs \<noteq> [] \<longrightarrow> 0 < n)"
proof (induction cs arbitrary: w)
  case Nil
  then show ?case by simp
next
  case (Cons c cs)
  obtain t msg kw where c: "c = (t, msg, kw)" by (cases c)
  obtain r w1 where l: "log t msg kw w = (r, w1)" by (cases "log t msg kw w")
  have w1: "written w1 = written w @ [record_line (entry t (clock w (ticks w)) kw)]"
    "ticks w1 = Suc (ticks w)" "clock w1 = clock w"
    using log_written [of t msg kw w] log_ticks [of t msg kw w] log_clock [of t msg kw w]
    by (simp_all add: l)
  show ?case
  proof (cases r)
    case (Inl e)
    then have "written (snd (log_all (c # cs) w)) =
        written w @ take 1 (lines_from (clock w) (ticks w) (c # cs))"
      and "fst (log_all (c # cs) w) \<noteq> Inr ()"
      by (simp_all add: c l w1)
    then show ?thesis by (intro exI [of _ 1]) simp
  next
    case (Inr u)
    from Cons.IH [of w1] obtain n where n: "n \<le> length cs"
      "written (snd (log_all cs w1)) = written w1 @ take n (lines_from (clock w1) (ticks w1) cs)"
      "fst (log_all cs w1) = Inr () \<longrightarrow> n = length cs"
      by blast
    from Inr have eq: "log_all (c # cs) w = log_all cs w1" by (simp add: c l)
    from n have "written (snd (log_all cs w1)) =
        written w @ take (Suc n) (lines_from (clock w) (ticks w) (c # cs))"
      by (simp add: w1 c)
    with n show ?thesis unfolding eq by (intro exI [of _ "Suc n"]) simp
  qed
qed

lemma log_all_no_remote: "blob w = None \<Longrightarrow> fst (log_all cs w) = Inr ()"
proof (induction cs arbitrary: w)
  case Nil
  then show ?case by simp
next
  case (Cons c cs)
  obtain t msg kw where c: "c = (t, msg, kw)" by (cases c)
  obtain r w1 where l: "log t msg kw w = (r, w1)" by (cases "log t msg kw w")
  from Cons.prems have "r = Inr ()" "blob w1 = None"
    using log_result [of t msg kw w] log_blob [of t msg kw w] by (simp_all add: l)
  with Cons.IH [of w1] show ?case by (simp add: c l)
qed

lemma log_actions:
  "\<exists>rest. actions (snd (log t msg kw w)) = actions w @ rest \<and> list_all is_log_action rest"
  by (simp add: log_eq Let_def is_log_action_def split: option.split list.split)

lemma log_all_actions:
  "\<exists>rest. actions (snd (log_all cs w)) = actions w @ rest \<and> list_all is_log_action rest"
proof (induction cs arbitrary: w)
  case Nil
  then show ?case by simp
next
  case (Cons c cs)
  obtain t msg kw where c: "c = (t, msg, kw)" by (cases c)
  obtain r w1 where l: "log t msg kw w = (r, w1)" by (cases "log t msg kw w")
  from log_actions [of t msg kw w] obtain r1 where
    r1: "actions w1 = actions w @ r1" "list_all is_log_action r1" by (auto simp: l)
  show ?case
  proof (cases r)
    case (Inl e)
    with r1 show ?thesis by (simp add: c l)
  next
    case (Inr u)
    from Cons.IH [of w1] obtain r2 where
      "actions (snd (log_all cs w1)) = actions w1 @ r2" "list_all is_log_action r2" by blast
    with r1 Inr have "actions (snd (log_all (c # cs) w)) = actions w @ (r1 @ r2) \<and>
      list_all is_log_action (r1 @ r2)" by (simp add: c l)
    then show ?thesis by blast
  qed
qed

lemma search_iff: "search re_exploit s \<noteq> None \<longleftrightarrow> has_signature s"
proof
  assume "search re_exploit s \<noteq> None"
  then obtain m where "search re_exploit s = Some m" by auto
  from search_leftmost [OF this] obtain pre t where
    s: "s = pre @ t" and t: "match_here re_exploit t = Some m" by blast
  from match_sound [OF t] obtain body post where
    "m = [36, 123] @ body @ [125]" "t = m @ post" "10 \<notin> set body" by blast
  with s have "s = pre @ [36, 123] @ body @ [125] @ post \<and> 10 \<notin> set body" by simp
  then show "has_signature s" unfolding has_signature_def by blast
next
  assume "has_signature s"
  then obtain pre body post where
    s: "s = pre @ [36, 123] @ body @ [125] @ post" and nl: "10 \<notin> set body"
    unfolding has_signature_def by blast
  from match_complete [OF nl, of post]
  have some: "match_here re_exploit ([36, 123] @ body @ [125] @ post) \<noteq> None" by auto
  show "search re_exploit s \<noteq> None"
  proof
    assume "search re_exploit s = None"
    from search_none [OF this s] some show False by simp
  qed
qed

lemma search_substring:
  assumes "search re_exploit s = Some m"
  shows "\<exists>pre post. s = pre @ m @ post"
proof -
  from search_leftmost [OF assms] obtain pre t where
    s: "s = pre @ t" and t: "match_here re_exploit t = Some m" by blast
  from match_sound [OF t] obtain post where "t = m @ post" by blast
  with s show ?thesis by blast
qed

lemma hits_of_locations:
  "map fst (hits_of sfs) = map fst (filter (\<lambda>(location, text). has_signature text) sfs)"
proof (induction sfs)
  case Nil
  then show ?case by (simp add: hits_of_def)
next
  case (Cons sf sfs)
  obtain l t where sf: "sf = (l, t)" by (cases sf)
  have "map fst (hits_of [sf]) = (if has_signature t then [l] else [])"
    using search_iff [of t] by (auto simp: hits_of_def sf split: option.split)
  with Cons.IH hits_of_Cons [of sf sfs] show ?case by (simp add: sf)
qed

lemma hits_of_payload:
  assumes "(location, m) \<in> set (hits_of sfs)"
  shows "\<exists>content pre post.
           (location, content) \<in> set sfs \<and> search re_exploit content = Some m \<and>
           content = pre @ m @ post"
proof -
  from assms obtain s where "(location, s) \<in> set sfs" "search re_exploit s = Some m"
    by (auto simp: hits_of_def split: option.splits)
  with search_substring show ?thesis by blast
qed

lemma push_error:
  "(case push c r of Inl e \<Rightarrow> e = UnicodeDecodeError | Inr cs \<Rightarrow> True) =
   (case r of Inl e \<Rightarrow> e = UnicodeDecodeError | Inr cs \<Rightarrow> True)"
  by (cases r) (simp_all add: push_def)

lemma utf8_decode_raises:
  "(case utf8_decode bs of Inl e \<Rightarrow> e = UnicodeDecodeError | Inr cs \<Rightarrow> True)"
  by (induction bs rule: utf8_decode.induct)
     (simp_all add: push_error Let_def split: list.split)

lemma utf8_decode_error: "utf8_decode bs = Inl e \<Longrightarrow> e = UnicodeDecodeError"
  using utf8_decode_raises [of bs] by simp

lemma do_written:
  "fst (response h) = Inr () \<Longrightarrow> read_body h = Inr b \<Longrightarrow>
   \<exists>n\<le>length (hits h).
     written (snd (do h w)) =
       written w @
       take (Suc n) (lines_from (clock w) (ticks w) (capture_call h b # map (exploit_call h) (hits h))) \<and>
     (fst (do h w) = Inr () \<longrightarrow> n = length (hits h))"
proof -
  assume ok: "fst (response h) = Inr ()" and b: "read_body h = Inr b"
  let ?cs = "capture_call h b # map (exploit_call h) (hits h)"
  let ?w = "emit (snd (response h)) w"
  from log_all_written [of ?cs ?w] obtain k where k: "k \<le> length ?cs"
    "written (snd (log_all ?cs ?w)) = written ?w @ take k (lines_from (clock ?w) (ticks ?w) ?cs)"
    "fst (log_all ?cs ?w) = Inr () \<longrightarrow> k = length ?cs" "0 < k"
    by auto
  then obtain n where n: "k = Suc n" by (cases k) auto
  have w: "clock ?w = clock w" "ticks ?w = ticks w" by (simp_all add: emit_def)
  from k n have "n \<le> length (hits h) \<and>
     written (snd (do h w)) = written w @ take (Suc n) (lines_from (clock w) (ticks w) ?cs) \<and>
     (fst (do h w) = Inr () \<longrightarrow> n = length (hits h))"
    by (simp add: do_eq ok b w written_response)
  then show ?thesis by blast
qed

lemma do_unanswered:
  "fst (response h) = Inl e \<Longrightarrow>
   fst (do h w) = Inl e \<and> actions (snd (do h w)) = actions w @ snd (response h) \<and>
   written (snd (do h w)) = written w"
  by (simp add: do_eq written_response) (simp add: emit_def)

lemma do_aborts:
  "fst (response h) = Inr () \<Longrightarrow> read_body h = Inl e \<Longrightarrow>
   fst (do h w) = Inl e \<and> actions (snd (do h w)) = actions w @ snd (response h) \<and>
   written (snd (do h w)) = written w"
  by (simp add: do_eq written_response) (simp add: emit_def)

lemma do_returns:
  "fst (do h w) = Inr () \<Longrightarrow> fst (response h) = Inr () \<and> (\<exists>b. read_body h = Inr b)"
  by (cases "fst (response h)"; cases "read_body h") (simp_all add: do_eq)

lemma do_actions:
  "\<exists>rest. actions (snd (do h w)) = actions w @ snd (response h) @ rest \<and>
     list_all is_log_action rest \<and> (fst (response h) \<noteq> Inr () \<longrightarrow> rest = [])"
proof (cases "fst (response h)")
  case (Inl e)
  then have "actions (snd (do h w)) = actions w @ snd (response h) @ [] \<and>
      list_all is_log_action []"
    by (simp add: do_eq emit_def)
  with Inl show ?thesis by blast
next
  case ok: (Inr u)
  show ?thesis
  proof (cases "read_body h")
    case (Inl e)
    with ok have "actions (snd (do h w)) = actions w @ snd (response h) @ [] \<and>
        list_all is_log_action []"
      by (simp add: do_eq emit_def)
    with ok show ?thesis by auto
  next
    case (Inr b)
    from log_all_actions [of "capture_call h b # map (exploit_call h) (hits h)"
        "emit (snd (response h)) w"]
    show ?thesis using ok by (auto simp: do_eq Inr emit_def)
  qed
qed

lemma request_version_example: "request_version example_handler = str ''HTTP/1.1''"
  by (simp add: request_version_def py_split_def example_handler_def str_def isspace_def)

lemma response_example:
  "response example_handler =
     (Inr (), [Wfile_write (head_bytes example_handler), Wfile_write (body_bytes example_handler)])"
proof -
  have "encodable (version_string example_handler)" "encodable (date_time_string example_handler)"
    "write_ok example_handler 0" "write_ok example_handler 1"
    by (simp_all add: encodable_def version_string_def example_handler_def str_def write_ok_def)
  moreover have "str ''HTTP/1.1'' \<noteq> str ''HTTP/0.9''" by (simp add: str_def)
  ultimately show ?thesis by (simp add: response_def request_version_example)
qed

lemma call_fields:
  assumes "c \<in> set (capture_call h b # map (exploit_call h) hs)"
  shows "map_of (entry (fst c) now (snd (snd c))) (str ''type'') = Some (Str (fst c))"
    and "map_of (entry (fst c) now (snd (snd c))) (str ''correlation_id'') =
           Some (Str (correlation_id h))"
proof -
  consider "c = capture_call h None" | content where "c = capture_call h (Some content)"
    | location m where "c = exploit_call h (location, m)"
    using assms by (cases b) auto
  then have "map_of (entry (fst c) now (snd (snd c))) (str ''type'') = Some (Str (fst c)) \<and>
    map_of (entry (fst c) now (snd (snd c))) (str ''correlation_id'') =
           Some (Str (correlation_id h))"
  proof cases
    case 1
    then show ?thesis
      by (simp add: capture_call_def request_fields_def entry_def str_def)
  next
    case 2
    then show ?thesis
      by (simp add: capture_call_def request_fields_def entry_def str_def)
  next
    case 3
    then show ?thesis
      by (simp add: exploit_call_def exploit_fields_def entry_def str_def)
  qed
  then show "map_of (entry (fst c) now (snd (snd c))) (str ''type'') = Some (Str (fst c))"
    and "map_of (entry (fst c) now (snd (snd c))) (str ''correlation_id'') =
           Some (Str (correlation_id h))" by simp_all
qed

lemma read_body_example: "read_body example_handler = Inr None"
  by (simp add: read_body_def example_handler_def dict_of_message_def str_def)

lemma read_body_bad_length: "read_body bad_length_handler = Inl ValueError"
  by (simp add: read_body_def bad_length_handler_def example_handler_def dict_of_message_def
      lower_def str_def py_int_def is_space_def is_digit_def)

lemma read_body_malformed_length: "read_body malformed_length_handler = Inl ValueError"
  by (simp add: read_body_def malformed_length_handler_def example_handler_def dict_of_message_def
      lower_def str_def py_int_def is_space_def is_digit_def)

lemma read_body_bad_body: "read_body bad_body_handler = Inl UnicodeDecodeError"
  by (simp add: read_body_def bad_body_handler_def example_handler_def dict_of_message_def
      lower_def str_def py_int_def is_space_def is_digit_def stream_read_def)

lemma response_carries_id:
  "fst (response h) = Inr () \<Longrightarrow> Wfile_write (body_bytes h) \<in> set (snd (response h))"
  by (auto simp: response_def split: if_splits)




lemma response_reset: "response reset_handler = (Inl OSError, [])"
proof -
  have "request_version reset_handler = request_version example_handler"
    by (simp add: request_version_def reset_handler_def)
  moreover have "str ''HTTP/1.1'' \<noteq> str ''HTTP/0.9''" by (simp add: str_def)
  moreover have "encodable (version_string reset_handler)"
    "encodable (date_time_string reset_handler)" "\<not> write_ok reset_handler 0"
    by (simp_all add: encodable_def version_string_def reset_handler_def example_handler_def
        str_def write_ok_def)
  ultimately show ?thesis by (simp add: response_def request_version_example)
qed




lemma response_headers: "response (h\<lparr>headers := hs\<rparr>) = response h"
proof -
  have "version_string (h\<lparr>headers := hs\<rparr>) = version_string h"
    "request_version (h\<lparr>headers := hs\<rparr>) = request_version h"
    "write_ok (h\<lparr>headers := hs\<rparr>) k = write_ok h k"
    "correlation_id (h\<lparr>headers := hs\<rparr>) = correlation_id h" for k
    by (simp_all add: version_string_def request_version_def write_ok_def correlation_id_def
        split: option.split)
  then show ?thesis by (simp add: response_def head_bytes_def body_bytes_def)
qed

lemma response_rfile: "response (h\<lparr>rfile_read := r\<rparr>) = response h"
proof -
  have "version_string (h\<lparr>rfile_read := r\<rparr>) = version_string h"
    "request_version (h\<lparr>rfile_read := r\<rparr>) = request_version h"
    "write_ok (h\<lparr>rfile_read := r\<rparr>) k = write_ok h k"
    "correlation_id (h\<lparr>rfile_read := r\<rparr>) = correlation_id h" for k
    by (simp_all add: version_string_def request_version_def write_ok_def correlation_id_def
        split: option.split)
  then show ?thesis by (simp add: response_def head_bytes_def body_bytes_def)
qed

lemma response_bad_length: "fst (response bad_length_handler) = Inr ()"
  unfolding bad_length_handler_def by (simp add: response_headers response_example)

lemma response_malformed_length: "fst (response malformed_length_handler) = Inr ()"
  unfolding malformed_length_handler_def by (simp add: response_headers response_example)

lemma response_bad_body: "fst (response bad_body_handler) = Inr ()"
  unfolding bad_body_handler_def
  by (simp add: response_headers response_rfile response_example)

lemma response_lower_case_length: "fst (response lower_case_length_handler) = Inr ()"
  unfolding lower_case_length_handler_def
  by (simp add: response_headers response_rfile response_example)

text \<open>
  C1 (amended). When the handling of a request ends without an exception, the local store
  receives the capture event and then one exploit event for each scanned surface (the
  request line, tagged \<^verbatim>\<open>request\<close>, and every header value, tagged
  \<^verbatim>\<open>header-<name>\<close>) that contains the signature, in scanning order and for no other
  surface; each event carries the tag of its surface and a matched text that is a part of
  that surface. What \<^verbatim>\<open>rfile.read\<close> returns has no influence on the exploit events: the
  body is not scanned.
\<close>

theorem exploit_events_match_surfaces:
  assumes "fst (do h w) = Inr ()"
  shows "\<exists>b. read_body h = Inr b \<and>
     written (snd (do h w)) =
       written w @
       lines_from (clock w) (ticks w) (capture_call h b # map (exploit_call h) (hits h)) \<and>
     map fst (hits h) =
       map fst (filter (\<lambda>(location, content). has_signature content) (surfaces h)) \<and>
     (\<forall>(location, m)\<in>set (hits h).
        \<exists>content pre post. (location, content) \<in> set (surfaces h) \<and>
          search re_exploit content = Some m \<and> content = pre @ m @ post) \<and>
     hits (h\<lparr>rfile_read := r\<rparr>) = hits h"
proof -
  from do_returns [OF assms] obtain b where ok: "fst (response h) = Inr ()"
    and b: "read_body h = Inr b" by blast
  let ?cs = "capture_call h b # map (exploit_call h) (hits h)"
  from do_written [OF ok b, of w] assms obtain n where
    "written (snd (do h w)) = written w @ take (Suc n) (lines_from (clock w) (ticks w) ?cs)"
    "n = length (hits h)" by blast
  moreover have "length (lines_from clk t cs) = length cs" for clk t cs
    by (induction clk t cs rule: lines_from.induct) simp_all
  ultimately have wr: "written (snd (do h w)) = written w @ lines_from (clock w) (ticks w) ?cs"
    by simp
  have pay: "\<forall>(location, m)\<in>set (hits h).
        \<exists>content pre post. (location, content) \<in> set (surfaces h) \<and>
          search re_exploit content = Some m \<and> content = pre @ m @ post"
    using hits_of_payload [of _ _ "surfaces h"] by (auto simp: hits_def)
  have "hits (h\<lparr>rfile_read := r\<rparr>) = hits h" by (simp add: hits_def surfaces_def)
  with b wr pay hits_of_locations [of "surfaces h"] show ?thesis by (auto simp: hits_def)
qed

theorem exploit_events_match_surfaces_witness:
  "fst (do example_handler example_world) = Inr () \<and>
   (\<exists>b. read_body example_handler = Inr b \<and>
     written (snd (do example_handler example_world)) =
       written example_world @
       lines_from (clock example_world) (ticks example_world)
         (capture_call example_handler b # map (exploit_call example_handler) (hits example_handler)) \<and>
     map fst (hits example_handler) =
       map fst (filter (\<lambda>(location, content). has_signature content) (surfaces example_handler)) \<and>
     (\<forall>(location, m)\<in>set (hits example_handler).
        \<exists>content pre post. (location, content) \<in> set (surfaces example_handler) \<and>
          search re_exploit content = Some m \<and> content = pre @ m @ post) \<and>
     hits (example_handler\<lparr>rfile_read := stream_read 1000000 ''${env:PATH}''\<rparr>) = hits example_handler)"
proof -
  have "blob (emit (snd (response example_handler)) example_world) = None"
    by (simp add: emit_def example_world_def)
  then have a: "fst (do example_handler example_world) = Inr ()"
    by (simp add: do_eq read_body_example log_all_no_remote response_example)
  from exploit_events_match_surfaces [OF a, of "stream_read 1000000 ''${env:PATH}''"] a
  show ?thesis by blast
qed

text \<open>
  C1 as stated fails: a request with the header \<^verbatim>\<open>Content-Length: abc\<close> and a second
  header that carries the signature is answered, then \<^verbatim>\<open>int\<close> raises and nothing is
  logged, so no exploit event is emitted for the matching header.
\<close>

theorem unscanned_request_counterexample:
  "(str ''header-X-Api-Version'', str ''${jndi:ldap://x}'') \<in> set (surfaces bad_length_handler) \<and>
   has_signature (str ''${jndi:ldap://x}'') \<and>
   fst (do bad_length_handler example_world) = Inl ValueError \<and>
   written (snd (do bad_length_handler example_world)) = []"
proof -
  have "search re_exploit (str ''${jndi:ldap://x}'') \<noteq> None"
    by (simp add: re_exploit_def str_def)
  then have "has_signature (str ''${jndi:ldap://x}'')" by (rule iffD1 [OF search_iff])
  moreover have "(str ''header-X-Api-Version'', str ''${jndi:ldap://x}'') \<in> set (surfaces bad_length_handler)"
    by (simp add: surfaces_def bad_length_handler_def str_def)
  moreover have "written example_world = []" by (simp add: written_def example_world_def)
  ultimately show ?thesis
    using do_aborts [OF _ read_body_bad_length, of example_world] response_bad_length by simp
qed

text \<open>
  C4 (amended). For every request for which the handler is called: when sending the
  response raises (a header value that cannot be encoded as Latin-1, a write on a
  connection that the client has reset) or reading the announced body raises (a
  malformed length, a read that fails, bytes that are not UTF-8), the handler raises and
  writes no event. Otherwise it writes exactly one \<^verbatim>\<open>request\<close> event, first, and after
  it exploit events only: all of them when the handler returns, the first ones when a
  remote append raises. Every one of these events has the correlation identifier that
  the body of the response carries, and all of them are written after the response.
\<close>

theorem one_capture_event_then_exploits:
  \<open>case fst (respond h (correlation_id h) w) of
     Inl e \<Rightarrow> fst (do h w) = Inl e \<and> written (snd (do h w)) = written w
   | Inr _ \<Rightarrow>
       (case read_body h of
          Inl e \<Rightarrow> fst (do h w) = Inl e \<and> written (snd (do h w)) = written w
        | Inr b \<Rightarrow>
            \<exists>n\<le>length (hits h).
              written (snd (do h w)) =
                written w @
                take (Suc n) (lines_from (clock w) (ticks w)
                                (capture_call h b # map (exploit_call h) (hits h))) \<and>
              (fst (do h w) = Inr () \<longrightarrow> n = length (hits h)) \<and>
              fst (capture_call h b) = str ''request'' \<and>
              (\<forall>c\<in>set (map (exploit_call h) (hits h)). fst c = str ''exploit'') \<and>
              (\<forall>c\<in>set (capture_call h b # map (exploit_call h) (hits h)). \<forall>now.
                 map_of (entry (fst c) now (snd (snd c))) (str ''type'') = Some (Str (fst c)) \<and>
                 map_of (entry (fst c) now (snd (snd c))) (str ''correlation_id'') =
                   Some (Str (correlation_id h))) \<and>
              Wfile_write (map char_of
                  (str ''{ "status": "ok", "id": "'' @ correlation_id h @ str ''" }''))
                \<in> set (actions (snd (respond h (correlation_id h) w))) \<and>
              (\<exists>rest. actions (snd (do h w)) =
                         actions (snd (respond h (correlation_id h) w)) @ rest \<and>
                       list_all is_log_action rest))\<close>
proof (cases "fst (response h)")
  case (Inl e)
  with do_unanswered [of h e w] show ?thesis by (simp add: respond_eq)
next
  case ok: (Inr u)
  show ?thesis
  proof (cases "read_body h")
    case (Inl e)
    with do_aborts [of h e w] ok show ?thesis by (simp add: respond_eq)
  next
    case (Inr b)
    from ok do_written [OF _ Inr, of w] obtain n where n: "n \<le> length (hits h)"
      "written (snd (do h w)) =
         written w @
         take (Suc n) (lines_from (clock w) (ticks w)
                         (capture_call h b # map (exploit_call h) (hits h)))"
      "fst (do h w) = Inr () \<longrightarrow> n = length (hits h)" by auto
    have kinds: "fst (capture_call h b) = str ''request''"
      "\<forall>c\<in>set (map (exploit_call h) (hits h)). fst c = str ''exploit''"
      by (auto simp: capture_call_def exploit_call_def)
    have ids: "\<forall>c\<in>set (capture_call h b # map (exploit_call h) (hits h)). \<forall>now.
              map_of (entry (fst c) now (snd (snd c))) (str ''type'') = Some (Str (fst c)) \<and>
              map_of (entry (fst c) now (snd (snd c))) (str ''correlation_id'') =
                Some (Str (correlation_id h))"
      using call_fields [of _ h b "hits h"] by blast
    from ok response_carries_id [of h]
    have body: \<open>Wfile_write (map char_of
                  (str ''{ "status": "ok", "id": "'' @ correlation_id h @ str ''" }''))
                \<in> set (actions (snd (respond h (correlation_id h) w)))\<close>
      by (simp add: respond_eq emit_def body_bytes_def)
    from do_actions [of h w]
    have "\<exists>rest. actions (snd (do h w)) =
                         actions (snd (respond h (correlation_id h) w)) @ rest \<and>
                       list_all is_log_action rest"
      by (auto simp: respond_eq emit_def)
    with n kinds ids body show ?thesis
      unfolding respond_eq fst_conv snd_conv ok Inr sum.case by blast
  qed
qed

theorem one_capture_event_then_exploits_witness:
  "fst (respond example_handler (correlation_id example_handler) example_world) = Inr () \<and>
   read_body example_handler = Inr None \<and>
   (\<exists>n\<le>length (hits example_handler).
      written (snd (do example_handler example_world)) =
        written example_world @
        take (Suc n) (lines_from (clock example_world) (ticks example_world)
          (capture_call example_handler None #
           map (exploit_call example_handler) (hits example_handler))) \<and>
      n = length (hits example_handler))"
proof -
  have "blob (emit (snd (response example_handler)) example_world) = None"
    by (simp add: emit_def example_world_def)
  then have a: "fst (do example_handler example_world) = Inr ()"
    by (simp add: do_eq read_body_example log_all_no_remote response_example)
  have b: "fst (respond example_handler (correlation_id example_handler) example_world) = Inr ()"
    by (simp add: respond_eq response_example)
  from one_capture_event_then_exploits [of example_handler example_world] a
  show ?thesis unfolding b read_body_example sum.case by blast
qed

text \<open>
  C4 as stated fails: for a request with the header \<^verbatim>\<open>Content-Length: 12a\<close> the handler
  sends its response, raises \<^verbatim>\<open>ValueError\<close> and writes no capture event; and when the
  client has reset the connection, the first write on the socket raises and nothing is
  logged either.
\<close>

theorem no_capture_event_counterexample:
  "fst (do malformed_length_handler example_world) = Inl ValueError \<and>
   written (snd (do malformed_length_handler example_world)) = [] \<and>
   do reset_handler example_world = (Inl OSError, example_world)"
proof -
  have "written example_world = []" by (simp add: written_def example_world_def)
  moreover have "do reset_handler example_world = (Inl OSError, example_world)"
    by (simp add: do_eq response_reset emit_def)
  ultimately show ?thesis
    using do_aborts [OF response_malformed_length read_body_malformed_length, of example_world]
    by simp
qed

lemma read_body_lower_case_length: "read_body lower_case_length_handler = Inr None"
  by (simp add: read_body_def lower_case_length_handler_def example_handler_def
      dict_of_message_def lower_def str_def)

text \<open>
  C6 (amended). For every request that has a header spelled exactly \<^verbatim>\<open>Content-Length\<close>,
  whose first length header has a value that \<^verbatim>\<open>int\<close> accepts, for which the read of
  that many bytes returns bytes that are not valid UTF-8, and whose response has been
  sent without an exception: the handler raises \<^verbatim>\<open>UnicodeDecodeError\<close> after the
  response and writes nothing to the local store, neither an exception event nor the
  capture event. For a request that has no header spelled exactly \<^verbatim>\<open>Content-Length\<close>
  (as with \<^verbatim>\<open>content-length\<close>) and whose response has been sent, the body is not
  read, whatever its bytes are: the capture event is written first, without a
  \<^verbatim>\<open>body\<close> field.
\<close>

theorem undecodable_body_ends_handling:
  "(str ''Content-Length'' \<in> set (map fst (dict_of_message (headers h))) \<and>
    message_get (headers h) (str ''Content-Length'') = Str v \<and>
    py_int (int_max_str_digits h) v = Inr n \<and>
    rfile_read h n = Inr post_data \<and>
    utf8_decode post_data = Inl e \<and>
    fst (respond h (correlation_id h) w) = Inr () \<longrightarrow>
      fst (do h w) = Inl UnicodeDecodeError \<and>
      snd (do h w) = snd (respond h (correlation_id h) w) \<and>
      written (snd (do h w)) = written w) \<and>
   (str ''Content-Length'' \<notin> set (map fst (dict_of_message (headers h))) \<and>
    fst (respond h (correlation_id h) w) = Inr () \<longrightarrow>
      (\<exists>k\<le>length (hits h).
         written (snd (do h w)) =
           written w @
           take (Suc k) (lines_from (clock w) (ticks w)
                           (capture_call h None # map (exploit_call h) (hits h)))) \<and>
      str ''body'' \<notin> set (map fst (snd (snd (capture_call h None)))))"
proof -
  have "fst (do h w) = Inl UnicodeDecodeError \<and>
      snd (do h w) = snd (respond h (correlation_id h) w) \<and>
      written (snd (do h w)) = written w"
    if a: "str ''Content-Length'' \<in> set (map fst (dict_of_message (headers h)))"
      "message_get (headers h) (str ''Content-Length'') = Str v"
      "py_int (int_max_str_digits h) v = Inr n"
      "rfile_read h n = Inr post_data"
      and d: "utf8_decode post_data = Inl e"
      and ok: "fst (respond h (correlation_id h) w) = Inr ()"
  proof -
    from d have "e = UnicodeDecodeError" by (rule utf8_decode_error)
    with a d have "read_body h = Inl UnicodeDecodeError" by (simp add: read_body_def)
    moreover from ok have "fst (response h) = Inr ()" by (simp add: respond_eq)
    ultimately show ?thesis by (simp add: do_eq respond_eq written_response)
  qed
  moreover have "(\<exists>k\<le>length (hits h).
         written (snd (do h w)) =
           written w @
           take (Suc k) (lines_from (clock w) (ticks w)
                           (capture_call h None # map (exploit_call h) (hits h)))) \<and>
      str ''body'' \<notin> set (map fst (snd (snd (capture_call h None))))"
    if a: "str ''Content-Length'' \<notin> set (map fst (dict_of_message (headers h)))"
      and ok: "fst (respond h (correlation_id h) w) = Inr ()"
  proof -
    from a have b: "read_body h = Inr None" by (simp add: read_body_def)
    from ok have "fst (response h) = Inr ()" by (simp add: respond_eq)
    from do_written [OF this b, of w]
    have "\<exists>k\<le>length (hits h).
         written (snd (do h w)) =
           written w @
           take (Suc k) (lines_from (clock w) (ticks w)
                           (capture_call h None # map (exploit_call h) (hits h)))"
      by blast
    moreover have "str ''body'' \<notin> set (map fst (snd (snd (capture_call h None))))"
      by (simp add: capture_call_def request_fields_def str_def)
    ultimately show ?thesis by blast
  qed
  ultimately show ?thesis by blast
qed

theorem undecodable_body_ends_handling_witness:
  "str ''Content-Length'' \<in> set (map fst (dict_of_message (headers bad_body_handler))) \<and>
   message_get (headers bad_body_handler) (str ''Content-Length'') = Str (str ''1'') \<and>
   py_int (int_max_str_digits bad_body_handler) (str ''1'') = Inr 1 \<and>
   rfile_read bad_body_handler 1 = Inr [CHR 0xFF] \<and>
   utf8_decode [CHR 0xFF] = Inl UnicodeDecodeError \<and>
   fst (respond bad_body_handler (correlation_id bad_body_handler) example_world) = Inr () \<and>
   fst (do bad_body_handler example_world) = Inl UnicodeDecodeError \<and>
   snd (do bad_body_handler example_world) =
     snd (respond bad_body_handler (correlation_id bad_body_handler) example_world) \<and>
   written (snd (do bad_body_handler example_world)) = written example_world \<and>
   str ''Content-Length'' \<notin>
     set (map fst (dict_of_message (headers lower_case_length_handler))) \<and>
   fst (respond lower_case_length_handler (correlation_id lower_case_length_handler)
          example_world) = Inr () \<and>
   (\<exists>k\<le>length (hits lower_case_length_handler).
      written (snd (do lower_case_length_handler example_world)) =
        written example_world @
        take (Suc k) (lines_from (clock example_world) (ticks example_world)
                        (capture_call lower_case_length_handler None #
                         map (exploit_call lower_case_length_handler)
                           (hits lower_case_length_handler))))"
proof -
  have a: "str ''Content-Length'' \<in> set (map fst (dict_of_message (headers bad_body_handler)))"
    by (simp add: bad_body_handler_def example_handler_def dict_of_message_def str_def)
  have b: "message_get (headers bad_body_handler) (str ''Content-Length'') = Str (str ''1'')"
    by (simp add: bad_body_handler_def example_handler_def)
  have c: "py_int (int_max_str_digits bad_body_handler) (str ''1'') = Inr 1"
    by (simp add: bad_body_handler_def example_handler_def py_int_def str_def is_space_def is_digit_def)
  have d: "rfile_read bad_body_handler 1 = Inr [CHR 0xFF]"
    by (simp add: bad_body_handler_def example_handler_def stream_read_def)
  have e: "utf8_decode [CHR 0xFF] = Inl UnicodeDecodeError" by simp
  have f: "fst (respond bad_body_handler (correlation_id bad_body_handler) example_world) = Inr ()"
    by (simp add: respond_eq response_bad_body)
  have g: "str ''Content-Length'' \<notin>
      set (map fst (dict_of_message (headers lower_case_length_handler)))"
    by (simp add: lower_case_length_handler_def example_handler_def dict_of_message_def
        lower_def str_def)
  have h: "fst (respond lower_case_length_handler (correlation_id lower_case_length_handler)
          example_world) = Inr ()"
    by (simp add: respond_eq response_lower_case_length)
  from undecodable_body_ends_handling
      [of bad_body_handler "str ''1''" 1 "[CHR 0xFF]" UnicodeDecodeError example_world]
    undecodable_body_ends_handling
      [of lower_case_length_handler _ _ _ _ example_world]
    a b c d e f g h
  show ?thesis by blast
qed

text \<open>
  C6 as stated fails: for a request with the header \<^verbatim>\<open>Content-Length: 1\<close> and the
  one-byte body \<^verbatim>\<open>0xFF\<close> the handler raises and the local store stays empty.
\<close>

theorem undecodable_body_counterexample:
  "fst (do bad_body_handler example_world) = Inl UnicodeDecodeError \<and>
   written (snd (do bad_body_handler example_world)) = []"
proof -
  have "written example_world = []" by (simp add: written_def example_world_def)
  then show ?thesis
    using do_aborts [OF response_bad_body read_body_bad_body, of example_world] by simp
qed

section \<open>The logged headers\<close>

lemma update_keys_fold:
  "map fst (foldl (\<lambda>d k. AList.update k (f k) d) d ks) =
     map fst d @ filter (\<lambda>k. k \<notin> set (map fst d)) (first_occurrences ks)"
proof (induction ks arbitrary: d)
  case Nil
  then show ?case by simp
next
  case (Cons k ks)
  show ?case
  proof (cases "k \<in> set (map fst d)")
    case True
    then have "(\<lambda>x. x \<noteq> k \<and> x \<notin> set (map fst d)) = (\<lambda>x. x \<notin> set (map fst d))" by auto
    with True show ?thesis by (simp add: Cons.IH update_keys del: set_map)
  next
    case False
    have "(\<lambda>x. x \<notin> set (map fst d @ [k])) = (\<lambda>x. x \<noteq> k \<and> x \<notin> set (map fst d))" by auto
    with False show ?thesis by (simp add: Cons.IH update_keys del: set_map set_append)
  qed
qed

lemma update_values_fold:
  "map_of (foldl (\<lambda>d k. AList.update k (f k) d) d ks) k =
     (if k \<in> set ks then Some (f k) else map_of d k)"
  by (induction ks arbitrary: d) (simp_all add: update_conv')

lemma message_get_find:
  "message_get hs name =
     (case find (\<lambda>(k, v). lower k = lower name) hs of None \<Rightarrow> Null | Some (k, v) \<Rightarrow> Str v)"
  by (induction hs) auto

lemma distinct_first_occurrences: "distinct (first_occurrences xs)"
  by (induction xs) simp_all

lemma set_first_occurrences: "set (first_occurrences xs) = set xs"
  by (induction xs) auto

text \<open>
  C8 (amended). The \<^verbatim>\<open>headers\<close> field of the capture event is a dictionary: its keys are
  the header names in the order of their first occurrence, each once, and the value of a
  name is the value of the first header of the request whose name equals it when case is
  ignored. The values of later headers of the same name are not in the record.
\<close>

theorem headers_field_is_dict:
  "request_fields sp client port request hs uuid ! 5 = (str ''headers'', Dict (dict_of_message hs)) \<and>
   map fst (dict_of_message hs) = first_occurrences (map fst hs) \<and>
   distinct (map fst (dict_of_message hs)) \<and>
   (\<forall>name\<in>set (map fst hs).
      map_of (dict_of_message hs) name =
        Some (case find (\<lambda>(k, v). lower k = lower name) hs of
                None \<Rightarrow> Null
              | Some (k, v) \<Rightarrow> Str v))"
proof -
  have keys: "map fst (dict_of_message hs) = first_occurrences (map fst hs)"
    using update_keys_fold [of "message_get hs" "[]" "map fst hs"]
    by (simp add: dict_of_message_def)
  have "map_of (dict_of_message hs) name = Some (message_get hs name)"
    if "name \<in> set (map fst hs)" for name
    using that update_values_fold [of "message_get hs" "[]" "map fst hs" name]
    by (simp add: dict_of_message_def)
  with keys distinct_first_occurrences [of "map fst hs"] show ?thesis
    by (simp add: request_fields_def message_get_find)
qed

theorem headers_field_is_dict_witness:
  "request_fields 8080 (str ''10.0.0.7'') 40000 (str ''GET / HTTP/1.1'')
     [(str ''Accept'', str ''a''), (str ''Host'', str ''h''), (str ''accept'', str ''b'')] (str ''id'') ! 5 =
     (str ''headers'',
      Dict (dict_of_message [(str ''Accept'', str ''a''), (str ''Host'', str ''h''), (str ''accept'', str ''b'')])) \<and>
   map fst (dict_of_message [(str ''Accept'', str ''a''), (str ''Host'', str ''h''), (str ''accept'', str ''b'')]) =
     first_occurrences (map fst [(str ''Accept'', str ''a''), (str ''Host'', str ''h''), (str ''accept'', str ''b'')]) \<and>
   str ''accept'' \<in> set (map fst [(str ''Accept'', str ''a''), (str ''Host'', str ''h''), (str ''accept'', str ''b'')]) \<and>
   map_of (dict_of_message [(str ''Accept'', str ''a''), (str ''Host'', str ''h''), (str ''accept'', str ''b'')])
     (str ''accept'') = Some (Str (str ''a''))"
proof -
  let ?hs = "[(str ''Accept'', str ''a''), (str ''Host'', str ''h''), (str ''accept'', str ''b'')]"
  have a: "str ''accept'' \<in> set (map fst ?hs)" by simp
  have b: "(case find (\<lambda>(k, v). lower k = lower (str ''accept'')) ?hs of
              None \<Rightarrow> Null | Some (k, v) \<Rightarrow> Str v) = Str (str ''a'')"
    by (simp add: lower_def str_def)
  from headers_field_is_dict [of 8080 "str ''10.0.0.7''" 40000 "str ''GET / HTTP/1.1''" ?hs "str ''id''"]
    a b
  show ?thesis by simp
qed

text \<open>
  C8 as stated fails: of two \<^verbatim>\<open>Accept\<close> headers with the values \<^verbatim>\<open>a\<close> and \<^verbatim>\<open>b\<close> the
  logged dictionary keeps one entry, with the value \<^verbatim>\<open>a\<close>.
\<close>

theorem duplicate_header_counterexample:
  "dict_of_message [(str ''Accept'', str ''a''), (str ''Accept'', str ''b'')] =
     [(str ''Accept'', Str (str ''a''))]"
  by (simp add: dict_of_message_def lower_def str_def)

section \<open>Failure of the remote mirror\<close>

lemma do_remote_failure:
  assumes "blob w = Some (False # rest)" and "read_body h = Inr b"
    and "fst (response h) = Inr ()"
  shows "fst (do h w) = Inl AzureError \<and>
         written (snd (do h w)) =
           written w @ take 1 (lines_from (clock w) (ticks w)
                                 (capture_call h b # map (exploit_call h) (hits h)))"
proof -
  obtain t msg kw where c: "capture_call h b = (t, msg, kw)" by (cases "capture_call h b")
  let ?w = "emit (snd (response h)) w"
  have w: "blob ?w = Some (False # rest)" "clock ?w = clock w" "ticks ?w = ticks w"
    using assms(1) by (simp_all add: emit_def)
  obtain r w1 where l: "log t msg kw ?w = (r, w1)" by (cases "log t msg kw ?w")
  have "r = Inl AzureError" using log_result [of t msg kw ?w] by (simp add: l w)
  moreover have "written w1 = written w @ [record_line (entry t (clock w (ticks w)) kw)]"
    using log_written [of t msg kw ?w] by (simp add: l w written_response)
  ultimately show ?thesis by (simp add: do_eq assms(2,3) c l)
qed

text \<open>
  C2 (amended). Every call of \<^verbatim>\<open>log\<close> first appends its record to the local store. When
  the remote append raises, \<^verbatim>\<open>log\<close> raises to its caller: it has written that one
  record and nothing else (no exception event), and it does not call \<^verbatim>\<open>append_block\<close>
  again. A later call of \<^verbatim>\<open>log\<close> appends its own record as usual. In the request
  handler, once the response has been sent, the exception ends the handling, so after a
  failed mirror write of the capture event no exploit event of that request is logged.
\<close>

theorem remote_failure_propagates:
  "written (snd (log logtype message kwargs w)) =
     written w @ [record_line (entry logtype (clock w (ticks w)) kwargs)] \<and>
   (case blob w of
      Some (False # rest) \<Rightarrow>
        fst (log logtype message kwargs w) = Inl AzureError \<and>
        actions (snd (log logtype message kwargs w)) =
          actions w @ [F_write (record_line (entry logtype (clock w (ticks w)) kwargs))] \<and>
        blob (snd (log logtype message kwargs w)) = Some rest
    | _ \<Rightarrow>
        fst (log logtype message kwargs w) = Inr ()) \<and>
   written (snd (log logtype' message' kwargs' (snd (log logtype message kwargs w)))) =
     written w @ [record_line (entry logtype (clock w (ticks w)) kwargs),
                  record_line (entry logtype' (clock w (Suc (ticks w))) kwargs')] \<and>
   (blob w = Some (False # rest') \<and> read_body h = Inr b \<and>
    fst (respond h (correlation_id h) w) = Inr () \<longrightarrow>
      fst (do h w) = Inl AzureError \<and>
      written (snd (do h w)) =
        written w @ take 1 (lines_from (clock w) (ticks w)
                              (capture_call h b # map (exploit_call h) (hits h))))"
proof -
  have "case blob w of
      Some (False # rest) \<Rightarrow>
        fst (log logtype message kwargs w) = Inl AzureError \<and>
        actions (snd (log logtype message kwargs w)) =
          actions w @ [F_write (record_line (entry logtype (clock w (ticks w)) kwargs))] \<and>
        blob (snd (log logtype message kwargs w)) = Some rest
    | _ \<Rightarrow>
        fst (log logtype message kwargs w) = Inr ()"
    by (simp add: log_eq Let_def split: option.split list.split bool.split)
  then show ?thesis
    using do_remote_failure [of w rest' h b]
    by (simp add: log_written log_ticks log_clock respond_eq)
qed

theorem remote_failure_propagates_witness:
  "blob failing_remote_world = Some (False # []) \<and>
   read_body example_handler = Inr None \<and>
   fst (respond example_handler (correlation_id example_handler) failing_remote_world) = Inr () \<and>
   fst (log (str ''start'') (str ''Log4Pot started'') [] failing_remote_world) = Inl AzureError \<and>
   actions (snd (log (str ''start'') (str ''Log4Pot started'') [] failing_remote_world)) =
     actions failing_remote_world @
     [F_write (record_line (entry (str ''start'')
        (clock failing_remote_world (ticks failing_remote_world)) []))] \<and>
   fst (do example_handler failing_remote_world) = Inl AzureError \<and>
   written (snd (do example_handler failing_remote_world)) =
     written failing_remote_world @
     take 1 (lines_from (clock failing_remote_world) (ticks failing_remote_world)
               (capture_call example_handler None #
                map (exploit_call example_handler) (hits example_handler)))"
proof -
  have a: "blob failing_remote_world = Some (False # [])" by (simp add: failing_remote_world_def)
  from remote_failure_propagates [of "str ''start''" "str ''Log4Pot started''" "[]"
      failing_remote_world _ _ _ "[]" example_handler None]
    a read_body_example show ?thesis by (simp add: respond_eq response_example)
qed

text \<open>
  C2 as stated fails: when the remote append raises, \<^verbatim>\<open>log_start\<close> raises, and the local
  store holds the start event only, no exception event.
\<close>

theorem remote_failure_counterexample:
  "fst (log_start failing_remote_world) = Inl AzureError \<and>
   written (snd (log_start failing_remote_world)) =
     [record_line (entry (str ''start'') (clock failing_remote_world 0) [])]"
  by (simp add: log_start_def log_result log_written)
     (simp add: failing_remote_world_def example_world_def written_def)

section \<open>Listeners\<close>

lemma make_threads_all:
  "\<forall>i<length ports. bind (bound @ take i ports) (ports ! i) = None \<Longrightarrow>
   make_threads bind bound ports = Inr ports"
proof (induction ports arbitrary: bound)
  case Nil
  then show ?case by simp
next
  case (Cons port ports)
  from Cons.prems have "bind bound port = None" by auto
  moreover have "\<forall>i<length ports. bind ((bound @ [port]) @ take i ports) (ports ! i) = None"
  proof (intro allI impI)
    fix i assume "i < length ports"
    with Cons.prems have "bind (bound @ take (Suc i) (port # ports)) ((port # ports) ! Suc i) = None"
      by (metis Suc_less_eq length_Cons)
    then show "bind ((bound @ [port]) @ take i ports) (ports ! i) = None" by simp
  qed
  ultimately show ?case using Cons.IH [of "bound @ [port]"] by simp
qed

lemma make_threads_first_failure:
  "i < length ports \<Longrightarrow> bind (bound @ take i ports) (ports ! i) = Some e \<Longrightarrow>
   \<forall>j<i. bind (bound @ take j ports) (ports ! j) = None \<Longrightarrow>
   make_threads bind bound ports = Inl e"
proof (induction ports arbitrary: bound i)
  case Nil
  then show ?case by simp
next
  case (Cons port ports)
  show ?case
  proof (cases i)
    case 0
    with Cons.prems show ?thesis by simp
  next
    case (Suc k)
    with Cons.prems have first: "bind bound port = None" by auto
    have k: "k < length ports" "bind ((bound @ [port]) @ take k ports) (ports ! k) = Some e"
      using Cons.prems Suc by simp_all
    have "\<forall>j<k. bind ((bound @ [port]) @ take j ports) (ports ! j) = None"
    proof (intro allI impI)
      fix j assume "j < k"
      then have "Suc j < i" by (simp add: Suc)
      with Cons.prems(3)
      have "bind (bound @ take (Suc j) (port # ports)) ((port # ports) ! Suc j) = None" by blast
      then show "bind ((bound @ [port]) @ take j ports) (ports ! j) = None" by simp
    qed
    with Cons.IH [of k "bound @ [port]"] k first show ?thesis by simp
  qed
qed

lemma log_raises: "fst (log t msg kw w) = Inl e \<Longrightarrow> e = AzureError"
  by (simp add: log_result split: option.splits list.splits bool.splits)

text \<open>
  C7 (amended). The listeners are built, and their ports bound, one after the other
  before anything is logged or started. When the bind of a configured port fails, after
  the binds of the ports before it have succeeded, startup raises that exception at
  once: nothing is written to the local store and no listener is started. When every
  bind succeeds, the start event is written to the local store; then, unless the remote
  append raises, the script goes on to start the threads of all configured ports.
  In a started thread, an exception raised by \<^verbatim>\<open>serve_forever\<close> or \<^verbatim>\<open>server_close\<close>
  is written as one exception event, after which \<^verbatim>\<open>run\<close> returns unless the remote
  append raises; a return or a keyboard interrupt writes nothing.
\<close>

theorem listener_failures:
  "(i < length ports \<and> bind (take i ports) (ports ! i) = Some err \<and>
    (\<forall>j<i. bind (take j ports) (ports ! j) = None) \<longrightarrow>
      startup bind ports w = (Inl err, w)) \<and>
   ((\<forall>j<length ports. bind (take j ports) (ports ! j) = None) \<longrightarrow>
      written (snd (startup bind ports w)) =
        written w @ [record_line (entry (str ''start'') (clock w (ticks w)) [])] \<and>
      fst (startup bind ports w) =
        (case blob w of Some (False # rest) \<Rightarrow> Inl AzureError | _ \<Rightarrow> Inr ports)) \<and>
   written (snd (run (Raised e) w)) =
     written w @
     [record_line (entry (str ''exception'') (clock w (ticks w)) [(str ''exception'', Str e)])] \<and>
   fst (run (Raised e) w) =
     (case blob w of Some (False # rest) \<Rightarrow> Inl AzureError | _ \<Rightarrow> Inr ()) \<and>
   run Returned w = (Inr (), w) \<and> run KeyboardInterrupt w = (Inr (), w)"
proof -
  obtain r w1 where l: "log_start w = (r, w1)" by (cases "log_start w")
  have w1: "written w1 = written w @ [record_line (entry (str ''start'') (clock w (ticks w)) [])]"
    using log_written [of "str ''start''" "str ''Log4Pot started''" "[]" w]
    by (simp add: l [unfolded log_start_def])
  have r: "r = (case blob w of Some (False # rest) \<Rightarrow> Inl AzureError | _ \<Rightarrow> Inr ())"
    using log_result [of "str ''start''" "str ''Log4Pot started''" "[]" w]
    by (simp add: l [unfolded log_start_def])
  have fail: "startup bind ports w = (Inl err, w)"
    if "i < length ports" "bind (take i ports) (ports ! i) = Some err"
      "\<forall>j<i. bind (take j ports) (ports ! j) = None"
    using make_threads_first_failure [of i ports bind "[]" err] that by (simp add: startup_def)
  have start: "written (snd (startup bind ports w)) =
        written w @ [record_line (entry (str ''start'') (clock w (ticks w)) [])] \<and>
      fst (startup bind ports w) =
        (case blob w of Some (False # rest) \<Rightarrow> Inl AzureError | _ \<Rightarrow> Inr ports)"
    if "\<forall>j<length ports. bind (take j ports) (ports ! j) = None"
    using make_threads_all [of ports bind "[]"] that w1 r
    by (simp add: startup_def l split: option.split list.split bool.split sum.split)
  have "written (snd (run (Raised e) w)) =
     written w @
     [record_line (entry (str ''exception'') (clock w (ticks w)) [(str ''exception'', Str e)])]"
    "fst (run (Raised e) w) =
     (case blob w of Some (False # rest) \<Rightarrow> Inl AzureError | _ \<Rightarrow> Inr ())"
    "run Returned w = (Inr (), w)" "run KeyboardInterrupt w = (Inr (), w)"
    by (simp_all add: run_def log_exception_def log_written log_result)
  with fail start show ?thesis by blast
qed

theorem listener_failures_witness:
  "(1::nat) < length [8080, 8080 :: int] \<and>
   linux_bind [] (take 1 [8080, 8080]) ([8080, 8080] ! 1) = Some OSError \<and>
   linux_bind [] (take 0 [8080, 8080]) ([8080, 8080] ! 0) = None \<and>
   startup (linux_bind []) [8080, 8080] example_world = (Inl OSError, example_world) \<and>
   linux_bind [] (take 0 [8080, 8081]) ([8080, 8081] ! 0) = None \<and>
   linux_bind [] (take 1 [8080, 8081]) ([8080, 8081] ! 1) = None \<and>
   blob example_world = None \<and>
   written (snd (startup (linux_bind []) [8080, 8081] example_world)) =
     written example_world @
     [record_line (entry (str ''start'') (clock example_world (ticks example_world)) [])] \<and>
   fst (startup (linux_bind []) [8080, 8081] example_world) = Inr [8080, 8081] \<and>
   fst (run (Raised (str ''boom'')) example_world) = Inr ()"
proof -
  have a: "(1::nat) < length [8080, 8080 :: int]"
    "linux_bind [] (take 1 [8080, 8080]) ([8080, 8080] ! 1) = Some OSError"
    "\<forall>j<1. linux_bind [] (take j [8080, 8080]) ([8080, 8080] ! j) = None"
    "linux_bind [] (take 0 [8080, 8080]) ([8080, 8080] ! 0) = None"
    by (simp_all add: linux_bind_def)
  have b: "\<forall>j<length [8080, 8081 :: int].
      linux_bind [] (take j [8080, 8081]) ([8080, 8081] ! j) = None"
    "linux_bind [] (take 0 [8080, 8081]) ([8080, 8081] ! 0) = None"
    "linux_bind [] (take 1 [8080, 8081]) ([8080, 8081] ! 1) = None"
    by (simp_all add: linux_bind_def less_Suc_eq)
  have c: "blob example_world = None" by (simp add: example_world_def)
  from listener_failures [of 1 "[8080, 8080]" "linux_bind []" OSError example_world "str ''boom''"]
    listener_failures [of _ "[8080, 8081]" "linux_bind []" _ example_world "str ''boom''"]
    a b c
  show ?thesis by simp
qed

text \<open>
  C7 as stated fails: with the ports 8080 and 8081 configured and port 8080 in use by
  another process, startup raises \<^verbatim>\<open>OSError\<close> and leaves the world as it was: no
  exception event is written, and the listener of port 8081 is not started.
\<close>

theorem bind_failure_counterexample:
  "startup (linux_bind [8080]) [8080, 8081] example_world = (Inl OSError, example_world)"
  by (simp add: startup_def linux_bind_def)

end
